theory Spec2Isabelle
  imports Main "HOL-Library.Multiset"
begin

section \<open>Data model of the scheduler\<close>

text \<open>
  \<^verbatim>\<open>Schedule\<close> in \<^verbatim>\<open>pkg/epp/scheduling/scheduler.go\<close> makes three kinds of calls into
  package \<^verbatim>\<open>framework\<close>: the profile handler's \<^verbatim>\<open>Pick\<close> and \<^verbatim>\<open>ProcessResults\<close>, and each
  picked profile's \<^verbatim>\<open>Run\<close>. Their code is outside this file, so they are parameters of
  the model, and what is proved holds whatever they return.

  What a callee is handed by reference it may write, and the model returns it as the
  callee leaves it:
  \<^item> every callee is handed the cycle state pointer and may keep state of its own, so
    every call takes the store and returns the store;
  \<^item> \<^verbatim>\<open>Pick\<close> is handed the scheduler's own results map (line 76), so it returns the map;
  \<^item> \<^verbatim>\<open>Run\<close> is handed the slice of candidate pods (line 86), whose elements it may
    overwrite, so it returns the elements.
  \<^verbatim>\<open>ProcessResults\<close> is handed the results map too, but \<^verbatim>\<open>Schedule\<close> does not read the map
  again after that call. Pods and profile run results are values: what a callee changes
  of them is an element of the slice or an entry of the map it is handed.

  The tracing span, the log lines and the latency metrics of \<^verbatim>\<open>Schedule\<close> are written and
  never read by it; they are left out, and so is the context argument, which the
  function only passes on. The request, the handler and the picked profiles are not nil.
\<close>

type_synonym ref = nat

text \<open>
  Modelled from the spec: the cycle state of package \<^verbatim>\<open>types\<close> is a mutable mapping
  from a plugin-defined key to an opaque value.
\<close>

type_synonym CycleState = "string \<rightharpoonup> string"

record store =
  cells :: "ref \<rightharpoonup> CycleState"
  next_ref :: ref

text \<open>
  Modelled from the spec: \<^verbatim>\<open>types.NewCycleState()\<close> creates a fresh, empty cycle state
  and returns the pointer to it.
\<close>

definition NewCycleState :: "store \<Rightarrow> ref \<times> store" where
  "NewCycleState w =
     (next_ref w, w\<lparr>cells := (cells w)(next_ref w \<mapsto> Map.empty), next_ref := Suc (next_ref w)\<rparr>)"

text \<open>
  Modelled from the spec: a request is an immutable value, never mutated after its
  creation, with a correlation id and the target model; a pod is a name, a namespace and
  an opaque metrics snapshot; a profile run result is a selected pod (possibly none) with
  per-pod scores.
\<close>

record LLMRequest =
  RequestId :: string
  TargetModel :: string

record Pod =
  PodName :: string
  PodNamespace :: string
  PodMetrics :: string

record ProfileRunResult =
  SelectedPod :: "Pod option"
  Scores :: "(string \<times> int) list"

text \<open>
  \<^verbatim>\<open>map[string]*types.ProfileRunResult\<close>: a key that is absent maps to \<open>None\<close>, a key
  whose entry is the nil pointer maps to \<open>Some None\<close>.
\<close>

type_synonym results = "string \<rightharpoonup> ProfileRunResult option"

record SchedulingResult =
  TargetPod :: "Pod option"
  ProfileResults :: results

datatype error = Error string

text \<open>
  A Go function returning \<^verbatim>\<open>(*T, error)\<close> returns two independent nullable values, so
  the model returns both and not a sum. \<^verbatim>\<open>Run\<close> returns the store, the result pointer,
  the error, and the elements of the candidate pods slice as it leaves them.
\<close>

record SchedulerProfile =
  Run :: "store \<Rightarrow> LLMRequest \<Rightarrow> ref \<Rightarrow> Pod list \<Rightarrow>
          store \<times> ProfileRunResult option \<times> error option \<times> Pod list"

text \<open>
  \<^verbatim>\<open>map[string]*framework.SchedulerProfile\<close> is a list of entries with distinct names.
  The order in which \<^verbatim>\<open>range\<close> visits the entries of a Go map is not specified; it is
  the parameter \<open>range_order\<close> of the loop below, which permutes the entries of the map
  picked in round \<open>n\<close>. Modelled from the spec: a profile is immutable during a request's
  lifetime, so the configured profiles are the same in every round.
\<close>

type_synonym profile_map = "(string \<times> SchedulerProfile) list"

type_synonym range_order = "nat \<Rightarrow> profile_map \<Rightarrow> profile_map"

text \<open>\<^verbatim>\<open>Pick\<close> returns the store, the picked profiles, and the results map as it leaves
  it.\<close>

record ProfileHandler =
  Pick :: "store \<Rightarrow> ref \<Rightarrow> LLMRequest \<Rightarrow> profile_map \<Rightarrow> results \<Rightarrow>
           store \<times> profile_map \<times> results"
  ProcessResults :: "store \<Rightarrow> ref \<Rightarrow> LLMRequest \<Rightarrow> results \<Rightarrow>
                     store \<times> SchedulingResult option \<times> error option"

record Scheduler =
  profileHandler :: ProfileHandler
  profiles :: profile_map

definition NewSchedulerWithConfig :: "ProfileHandler \<Rightarrow> profile_map \<Rightarrow> Scheduler" where
  "NewSchedulerWithConfig h ps = \<lparr>profileHandler = h, profiles = ps\<rparr>"

text \<open>
  A callee can overwrite the elements of the slice it is handed, but not change the
  length of the caller's slice: the caller keeps its own length and sees the elements
  written.
\<close>

fun overwritten :: "'a list \<Rightarrow> 'a list \<Rightarrow> 'a list" where
  "overwritten [] ys = []"
| "overwritten (x # xs) [] = x # xs"
| "overwritten (x # xs) (y # ys) = y # overwritten xs ys"

subsection \<open>The record of plugin calls\<close>

text \<open>
  Each plugin call is recorded with its arguments (the results collection handed to the
  handler; the name, the profile and the candidate pods of a run), the cycle state
  pointer it was given, the store before the call and the store after it. The record
  is not read by the scheduler; it is what the statements about calls (which plugin was
  called, with what, in which order) are about.
\<close>

datatype call =
    PickCall results
  | RunCall string SchedulerProfile "Pod list"
  | ProcessResultsCall results

record event =
  call :: call
  cs_ref :: ref
  before :: store
  after :: store

record loop_state =
  world :: store
  profileRunResults :: results
  candidatePods :: "Pod list"
  calls :: "event list"

section \<open>The scheduling loop\<close>

text \<open>The body of the inner loop (lines 83 to 94): run one profile and store its result.
  The error is only logged; the stored value is the returned result pointer.\<close>

definition run_profile ::
  "LLMRequest \<Rightarrow> ref \<Rightarrow> string \<times> SchedulerProfile \<Rightarrow> loop_state \<Rightarrow> loop_state" where
  "run_profile request cycleState entry st =
     (let name = fst entry;
          profile = snd entry;
          r = Run profile (world st) request cycleState (candidatePods st);
          profileRunResult = fst (snd r)
      in \<lparr>world = fst r,
          profileRunResults = (profileRunResults st)(name \<mapsto> profileRunResult),
          candidatePods = overwritten (candidatePods st) (snd (snd (snd r))),
          calls = calls st @
            [\<lparr>call = RunCall name profile (candidatePods st), cs_ref = cycleState,
              before = world st, after = fst r\<rparr>]\<rparr>)"

fun run_profiles :: "LLMRequest \<Rightarrow> ref \<Rightarrow> profile_map \<Rightarrow> loop_state \<Rightarrow> loop_state" where
  "run_profiles request cycleState [] st = st"
| "run_profiles request cycleState (entry # rest) st =
     run_profiles request cycleState rest (run_profile request cycleState entry st)"

text \<open>The call of \<^verbatim>\<open>Pick\<close> at the head of a round (line 76): the profiles it picks, and
  the loop state it leaves. The results map of the loop state is the map as \<^verbatim>\<open>Pick\<close>
  leaves it.\<close>

definition pick_profiles :: "Scheduler \<Rightarrow> LLMRequest \<Rightarrow> ref \<Rightarrow> loop_state \<Rightarrow> profile_map" where
  "pick_profiles s request cycleState st =
     fst (snd (Pick (profileHandler s) (world st) cycleState request (profiles s)
                 (profileRunResults st)))"

definition after_pick :: "Scheduler \<Rightarrow> LLMRequest \<Rightarrow> ref \<Rightarrow> loop_state \<Rightarrow> loop_state" where
  "after_pick s request cycleState st =
     (let r = Pick (profileHandler s) (world st) cycleState request (profiles s)
                (profileRunResults st)
      in st\<lparr>world := fst r,
            profileRunResults := snd (snd r),
            calls := calls st @
              [\<lparr>call = PickCall (profileRunResults st), cs_ref = cycleState,
                before = world st, after = fst r\<rparr>]\<rparr>)"

text \<open>One full round: the call of \<^verbatim>\<open>Pick\<close>, then the picked profiles in the order
  in which \<^verbatim>\<open>range\<close> visits them.\<close>

definition round_body ::
  "Scheduler \<Rightarrow> range_order \<Rightarrow> LLMRequest \<Rightarrow> ref \<Rightarrow> nat \<Rightarrow> loop_state \<Rightarrow> loop_state" where
  "round_body s range_order request cycleState n st =
     run_profiles request cycleState
       (range_order n (pick_profiles s request cycleState st))
       (after_pick s request cycleState st)"

text \<open>
  The outer loop (lines 73 to 95) has no bound: it ends when \<^verbatim>\<open>Pick\<close> returns an empty
  map and not otherwise. A run that never ends has the value \<open>None\<close>.
\<close>

partial_function (option) rounds ::
  "Scheduler \<Rightarrow> range_order \<Rightarrow> LLMRequest \<Rightarrow> ref \<Rightarrow> nat \<Rightarrow> loop_state \<Rightarrow> loop_state option"
  where
  "rounds s range_order request cycleState n st =
     (if length (pick_profiles s request cycleState st) = 0
      then Some (after_pick s request cycleState st)
      else rounds s range_order request cycleState (Suc n)
             (round_body s range_order request cycleState n st))"

record outcome =
  result :: "SchedulingResult option"
  err :: "error option"
  final_world :: store
  trace :: "event list"

definition NoProfilesRun :: "LLMRequest \<Rightarrow> error" where
  "NoProfilesRun request =
     Error (''failed to run any scheduler profile for request '' @ RequestId request)"

text \<open>Lines 97 to 120: the test of the results map, and the call of \<^verbatim>\<open>ProcessResults\<close>,
  whose result and error are returned as they are.\<close>

definition finish :: "Scheduler \<Rightarrow> LLMRequest \<Rightarrow> ref \<Rightarrow> loop_state \<Rightarrow> outcome" where
  "finish s request cycleState st =
     (if profileRunResults st = Map.empty
      then \<lparr>result = None, err = Some (NoProfilesRun request),
            final_world = world st, trace = calls st\<rparr>
      else (let r = ProcessResults (profileHandler s) (world st) cycleState request
                      (profileRunResults st)
            in \<lparr>result = fst (snd r), err = snd (snd r), final_world = fst r,
                trace = calls st @
                  [\<lparr>call = ProcessResultsCall (profileRunResults st), cs_ref = cycleState,
                    before = world st, after = fst r\<rparr>]\<rparr>))"

text \<open>The state in which the loop starts (lines 70 and 71): no results, no calls, the
  candidate pods of the caller, and the store in which the cycle state has just been
  created.\<close>

definition initial_state :: "store \<Rightarrow> Pod list \<Rightarrow> loop_state" where
  "initial_state w pods =
     \<lparr>world = snd (NewCycleState w), profileRunResults = Map.empty, candidatePods = pods,
      calls = []\<rparr>"

definition Schedule ::
  "Scheduler \<Rightarrow> range_order \<Rightarrow> store \<Rightarrow> LLMRequest \<Rightarrow> Pod list \<Rightarrow> outcome option" where
  "Schedule s range_order w request pods =
     (let cycleState = fst (NewCycleState w)
      in map_option (finish s request cycleState)
           (rounds s range_order request cycleState 0 (initial_state w pods)))"

section \<open>Rounds, visiting orders and observations of the call record\<close>

text \<open>The loop state at the head of round \<open>n + k\<close>, from the state \<open>st\<close> at the head of
  round \<open>n\<close>.\<close>

fun round_state ::
  "Scheduler \<Rightarrow> range_order \<Rightarrow> LLMRequest \<Rightarrow> ref \<Rightarrow> nat \<Rightarrow> nat \<Rightarrow> loop_state \<Rightarrow> loop_state"
  where
  "round_state s ro request cycleState n 0 st = st"
| "round_state s ro request cycleState n (Suc k) st =
     round_state s ro request cycleState (Suc n) k (round_body s ro request cycleState n st)"

text \<open>\<^verbatim>\<open>Pick\<close> returns an empty map for the first time \<open>k\<close> rounds after round \<open>n\<close>.\<close>

definition ends_at ::
  "Scheduler \<Rightarrow> range_order \<Rightarrow> LLMRequest \<Rightarrow> ref \<Rightarrow> nat \<Rightarrow> loop_state \<Rightarrow> nat \<Rightarrow> bool" where
  "ends_at s ro request cycleState n st k \<longleftrightarrow>
     (\<forall>j<k. pick_profiles s request cycleState
              (round_state s ro request cycleState n j st) \<noteq> []) \<and>
     pick_profiles s request cycleState (round_state s ro request cycleState n k st) = []"

text \<open>The loop gets to the head of round \<open>k\<close>: none of the first \<open>k\<close> calls of \<^verbatim>\<open>Pick\<close>
  returned an empty map.\<close>

definition reaches_round ::
  "Scheduler \<Rightarrow> range_order \<Rightarrow> LLMRequest \<Rightarrow> ref \<Rightarrow> loop_state \<Rightarrow> nat \<Rightarrow> bool" where
  "reaches_round s ro request cycleState st k \<longleftrightarrow>
     (\<forall>j<k. pick_profiles s request cycleState
              (round_state s ro request cycleState 0 j st) \<noteq> [])"

text \<open>\<^verbatim>\<open>range\<close> over a Go map visits every entry exactly once.\<close>

definition range_ok :: "range_order \<Rightarrow> bool" where
  "range_ok ro \<longleftrightarrow> (\<forall>n m. mset (ro n m) = mset m)"

definition visit_forward :: range_order where
  "visit_forward n m = m"

definition visit_backward :: range_order where
  "visit_backward n m = rev m"

text \<open>The results collection an event hands to the handler, and the profile name an
  event runs.\<close>

fun input_results :: "event \<Rightarrow> results option" where
  "input_results e =
     (case call e of PickCall rs \<Rightarrow> Some rs
      | RunCall name profile pods \<Rightarrow> None
      | ProcessResultsCall rs \<Rightarrow> Some rs)"

fun run_name :: "event \<Rightarrow> string option" where
  "run_name e =
     (case call e of PickCall rs \<Rightarrow> None
      | RunCall name profile pods \<Rightarrow> Some name
      | ProcessResultsCall rs \<Rightarrow> None)"

fun run_entry :: "event \<Rightarrow> (string \<times> SchedulerProfile) option" where
  "run_entry e =
     (case call e of PickCall rs \<Rightarrow> None
      | RunCall name profile pods \<Rightarrow> Some (name, profile)
      | ProcessResultsCall rs \<Rightarrow> None)"

fun is_ProcessResultsCall :: "event \<Rightarrow> bool" where
  "is_ProcessResultsCall e =
     (case call e of PickCall rs \<Rightarrow> False
      | RunCall name profile pods \<Rightarrow> False
      | ProcessResultsCall rs \<Rightarrow> True)"

text \<open>The entries (name and profile) of the runs in a list of events, in order.\<close>

fun run_entries :: "event list \<Rightarrow> (string \<times> SchedulerProfile) list" where
  "run_entries [] = []"
| "run_entries (e # es) =
     (case run_entry e of None \<Rightarrow> run_entries es | Some entry \<Rightarrow> entry # run_entries es)"

text \<open>The store that the callee of an event returns, when it is called as the event
  records: on the store before the call, with the recorded arguments.\<close>

fun returned_store :: "Scheduler \<Rightarrow> LLMRequest \<Rightarrow> event \<Rightarrow> store" where
  "returned_store s request e =
     (case call e of
        PickCall rs \<Rightarrow>
          fst (Pick (profileHandler s) (before e) (cs_ref e) request (profiles s) rs)
      | RunCall name profile pods \<Rightarrow> fst (Run profile (before e) request (cs_ref e) pods)
      | ProcessResultsCall rs \<Rightarrow>
          fst (ProcessResults (profileHandler s) (before e) (cs_ref e) request rs))"

text \<open>The results map that the \<^verbatim>\<open>Pick\<close> of an event leaves, when it is called as the
  event records; an event that is no \<^verbatim>\<open>Pick\<close> has none.\<close>

fun left_results :: "Scheduler \<Rightarrow> LLMRequest \<Rightarrow> event \<Rightarrow> results option" where
  "left_results s request e =
     (case call e of
        PickCall rs \<Rightarrow>
          Some (snd (snd (Pick (profileHandler s) (before e) (cs_ref e) request (profiles s) rs)))
      | RunCall name profile pods \<Rightarrow> None
      | ProcessResultsCall rs \<Rightarrow> None)"

text \<open>The results map after a list of events: a \<^verbatim>\<open>Pick\<close> leaves the map it returns, a
  run is followed by the store of its result under its name (line 93).\<close>

fun replay :: "Scheduler \<Rightarrow> LLMRequest \<Rightarrow> results \<Rightarrow> event list \<Rightarrow> results" where
  "replay s request rs [] = rs"
| "replay s request rs (e # es) =
     replay s request
       (case call e of
          PickCall rs' \<Rightarrow>
            snd (snd (Pick (profileHandler s) (before e) (cs_ref e) request (profiles s) rs'))
        | RunCall name profile pods \<Rightarrow>
            rs(name \<mapsto> fst (snd (Run profile (before e) request (cs_ref e) pods)))
        | ProcessResultsCall rs' \<Rightarrow> rs)
       es"

text \<open>A \<^verbatim>\<open>Pick\<close> event leaves the entry of a name as it was handed it: absent when it was
  absent, and the same pointer when it was present. Events that are no \<^verbatim>\<open>Pick\<close> have no
  hold on the map other than line 93.\<close>

fun pick_keeps :: "Scheduler \<Rightarrow> LLMRequest \<Rightarrow> string \<Rightarrow> event \<Rightarrow> bool" where
  "pick_keeps s request name e =
     (case call e of
        PickCall rs \<Rightarrow>
          snd (snd (Pick (profileHandler s) (before e) (cs_ref e) request (profiles s) rs)) name =
            rs name
      | RunCall name' profile pods \<Rightarrow> True
      | ProcessResultsCall rs \<Rightarrow> True)"

text \<open>Every event of a list is given the pointer \<open>r\<close>, the first one starts from the
  store \<open>w\<close>, and each later one starts from the store its predecessor left.\<close>

fun chained :: "ref \<Rightarrow> store \<Rightarrow> event list \<Rightarrow> bool" where
  "chained r w [] = True"
| "chained r w (e # es) = (cs_ref e = r \<and> before e = w \<and> chained r (after e) es)"

fun last_after :: "store \<Rightarrow> event list \<Rightarrow> store" where
  "last_after w [] = w"
| "last_after w (e # es) = last_after (after e) es"

text \<open>Every results collection handed to the handler is the replay of the events recorded
  before that call.\<close>

definition inputs_replayed :: "Scheduler \<Rightarrow> LLMRequest \<Rightarrow> event list \<Rightarrow> bool" where
  "inputs_replayed s request es \<longleftrightarrow>
     (\<forall>j<length es. \<forall>r. input_results (es ! j) = Some r \<longrightarrow>
        r = replay s request Map.empty (take j es))"

text \<open>The call record is a chain from the store \<open>w\<close> that ends in the current store, and
  the store after every call is the store its callee returned.\<close>

definition chain_inv :: "Scheduler \<Rightarrow> LLMRequest \<Rightarrow> ref \<Rightarrow> store \<Rightarrow> loop_state \<Rightarrow> bool" where
  "chain_inv s request r w st \<longleftrightarrow>
     chained r w (calls st) \<and> world st = last_after w (calls st) \<and>
     (\<forall>e \<in> set (calls st). after e = returned_store s request e)"

text \<open>The results collection of a loop state is the replay of its call record, and so
  was every results collection handed to the handler.\<close>

definition replay_inv :: "Scheduler \<Rightarrow> LLMRequest \<Rightarrow> loop_state \<Rightarrow> bool" where
  "replay_inv s request st \<longleftrightarrow>
     profileRunResults st = replay s request Map.empty (calls st) \<and>
     inputs_replayed s request (calls st)"

text \<open>The loop does not call \<^verbatim>\<open>ProcessResults\<close>.\<close>

definition loop_calls_inv :: "loop_state \<Rightarrow> bool" where
  "loop_calls_inv st \<longleftrightarrow> (\<forall>e \<in> set (calls st). \<not> is_ProcessResultsCall e)"

text \<open>With no candidate pods, every run of the call record was handed the empty list.\<close>

definition no_pods_inv :: "loop_state \<Rightarrow> bool" where
  "no_pods_inv st \<longleftrightarrow>
     candidatePods st = [] \<and>
     (\<forall>e \<in> set (calls st). \<forall>name p pods'. call e = RunCall name p pods' \<longrightarrow> pods' = [])"

text \<open>Two loop states with the same store, the same results collection and the same
  candidate pods; their call records may differ.\<close>

definition same_data :: "loop_state \<Rightarrow> loop_state \<Rightarrow> bool" where
  "same_data st st' \<longleftrightarrow>
     world st = world st' \<and> profileRunResults st = profileRunResults st' \<and>
     candidatePods st = candidatePods st'"


text \<open>
  Modelled from the spec: a profile run result is either a selected pod with scores or
  the nil marker that the profile failed to run; the comment on line 93 says the same of
  \<^verbatim>\<open>SchedulerProfile.Run\<close>, whose code is in package \<^verbatim>\<open>framework\<close>: "if profile failed to
  run, the run result is nil".
\<close>

definition nil_on_error :: "SchedulerProfile \<Rightarrow> bool" where
  "nil_on_error p \<longleftrightarrow>
     (\<forall>w request cycleState pods.
        fst (snd (snd (Run p w request cycleState pods))) \<noteq> None \<longrightarrow>
        fst (snd (Run p w request cycleState pods)) = None)"

text \<open>
  What a call that returns \<open>out\<close> returns, read off the last call of its record: after
  a \<^verbatim>\<open>Pick\<close> that left the results map empty, no result and the error that no profile
  was run; after a \<^verbatim>\<open>ProcessResults\<close>, which was handed a map that is not empty, the
  result and the error which that call returned.
\<close>

definition settled_by_last_call :: "Scheduler \<Rightarrow> LLMRequest \<Rightarrow> outcome \<Rightarrow> bool" where
  "settled_by_last_call s request out \<longleftrightarrow>
     trace out \<noteq> [] \<and>
     final_world out = after (last (trace out)) \<and>
     (case call (last (trace out)) of
        PickCall rs \<Rightarrow>
          left_results s request (last (trace out)) = Some Map.empty \<and>
          result out = None \<and> err out = Some (NoProfilesRun request)
      | RunCall name profile pods \<Rightarrow> False
      | ProcessResultsCall rs \<Rightarrow>
          rs \<noteq> Map.empty \<and>
          result out =
            fst (snd (ProcessResults (profileHandler s) (before (last (trace out)))
                        (cs_ref (last (trace out))) request rs)) \<and>
          err out =
            snd (snd (ProcessResults (profileHandler s) (before (last (trace out)))
                        (cs_ref (last (trace out))) request rs)))"

section \<open>Example plugins\<close>

text \<open>Modelled from the spec: the cycle state operations get-by-key and set-by-key.\<close>

definition cs_read :: "store \<Rightarrow> ref \<Rightarrow> string \<Rightarrow> string option" where
  "cs_read w r k = (case cells w r of None \<Rightarrow> None | Some m \<Rightarrow> m k)"

definition cs_write :: "store \<Rightarrow> ref \<Rightarrow> string \<Rightarrow> string \<Rightarrow> store" where
  "cs_write w r k v =
     w\<lparr>cells := (cells w)(r \<mapsto> (case cells w r of None \<Rightarrow> Map.empty | Some m \<Rightarrow> m)(k \<mapsto> v))\<rparr>"

definition empty_store :: store where
  "empty_store = \<lparr>cells = Map.empty, next_ref = 0\<rparr>"

definition request_r1 :: LLMRequest where
  "request_r1 = \<lparr>RequestId = ''r1'', TargetModel = ''m''\<rparr>"

definition pod_A :: Pod where
  "pod_A = \<lparr>PodName = ''A'', PodNamespace = ''default'', PodMetrics = ''idle''\<rparr>"

definition pod_B :: Pod where
  "pod_B = \<lparr>PodName = ''B'', PodNamespace = ''default'', PodMetrics = ''busy''\<rparr>"

text \<open>A profile that selects the first candidate pod, if there is one.\<close>

definition first_pod_profile :: SchedulerProfile where
  "first_pod_profile =
     \<lparr>Run = (\<lambda>w request cycleState pods.
        (case pods of
           [] \<Rightarrow> (w, Some \<lparr>SelectedPod = None, Scores = []\<rparr>, None, pods)
         | p # ps \<Rightarrow>
             (w, Some \<lparr>SelectedPod = Some p, Scores = [(PodName p, 1)]\<rparr>, None, pods)))\<rparr>"

text \<open>A profile whose run fails with a nil result.\<close>

definition failing_profile :: SchedulerProfile where
  "failing_profile =
     \<lparr>Run = (\<lambda>w request cycleState pods. (w, None, Some (Error ''profile failed''), pods))\<rparr>"

text \<open>A profile whose run returns an error together with a result that is not nil.\<close>

definition partial_profile :: SchedulerProfile where
  "partial_profile =
     \<lparr>Run = (\<lambda>w request cycleState pods.
        (w, Some \<lparr>SelectedPod = None, Scores = []\<rparr>, Some (Error ''profile failed''), pods))\<rparr>"

text \<open>A profile that looks up the key \<open>first\<close> in the cycle state: the run that finds it
  unset writes its tag there and selects the first candidate pod, a run that finds it set
  selects no pod.\<close>

definition claiming_profile :: "string \<Rightarrow> SchedulerProfile" where
  "claiming_profile tag =
     \<lparr>Run = (\<lambda>w request cycleState pods.
        (case cs_read w cycleState ''first'' of
           None \<Rightarrow> (cs_write w cycleState ''first'' tag,
                    Some \<lparr>SelectedPod = (case pods of [] \<Rightarrow> None | p # ps \<Rightarrow> Some p),
                          Scores = []\<rparr>, None, pods)
         | Some v \<Rightarrow> (w, Some \<lparr>SelectedPod = None, Scores = []\<rparr>, None, pods)))\<rparr>"

text \<open>A profile that writes a key of its own into the cycle state and selects the first
  candidate pod.\<close>

definition tagging_profile :: "string \<Rightarrow> SchedulerProfile" where
  "tagging_profile tag =
     \<lparr>Run = (\<lambda>w request cycleState pods.
        (cs_write w cycleState tag ''seen'',
         Some \<lparr>SelectedPod = (case pods of [] \<Rightarrow> None | p # ps \<Rightarrow> Some p), Scores = []\<rparr>,
         None, pods))\<rparr>"

text \<open>A profile that selects no pod and overwrites every element of the slice of candidate
  pods it is handed.\<close>

definition overwriting_profile :: SchedulerProfile where
  "overwriting_profile =
     \<lparr>Run = (\<lambda>w request cycleState pods.
        (w, Some \<lparr>SelectedPod = None, Scores = []\<rparr>, None, map (\<lambda>p. pod_B) pods))\<rparr>"

text \<open>A profile that notes in the cycle state whether it was handed any candidate pod,
  selects the first one if there is one, and scores all of them.\<close>

definition counting_profile :: SchedulerProfile where
  "counting_profile =
     \<lparr>Run = (\<lambda>w request cycleState pods.
        (cs_write w cycleState ''pods'' (if pods = [] then ''none'' else ''some''),
         Some \<lparr>SelectedPod = (case pods of [] \<Rightarrow> None | p # ps \<Rightarrow> Some p),
               Scores = (''candidates'', int (length pods)) # map (\<lambda>p. (PodName p, 1)) pods\<rparr>,
         None, pods))\<rparr>"

text \<open>A profile whose first run in a call fails and whose later runs select the first
  candidate pod; the cycle state tells it whether it has run before.\<close>

definition second_try_profile :: SchedulerProfile where
  "second_try_profile =
     \<lparr>Run = (\<lambda>w request cycleState pods.
        (case cs_read w cycleState ''tried'' of
           None \<Rightarrow>
             (cs_write w cycleState ''tried'' ''yes'', None, Some (Error ''try again''), pods)
         | Some v \<Rightarrow>
             (w, Some \<lparr>SelectedPod = (case pods of [] \<Rightarrow> None | p # ps \<Rightarrow> Some p),
                       Scores = []\<rparr>, None, pods)))\<rparr>"

text \<open>The result of the profile named \<open>primary\<close> decides the target pod.\<close>

definition primary_results ::
  "string \<Rightarrow> store \<Rightarrow> ref \<Rightarrow> LLMRequest \<Rightarrow> results \<Rightarrow>
   store \<times> SchedulingResult option \<times> error option" where
  "primary_results primary w cycleState request rs =
     (case rs primary of
        Some (Some r) \<Rightarrow> (w, Some \<lparr>TargetPod = SelectedPod r, ProfileResults = rs\<rparr>, None)
      | Some None \<Rightarrow> (w, None, Some (Error ''primary profile failed''))
      | None \<Rightarrow> (w, None, Some (Error ''primary profile did not run'')))"

text \<open>A handler that never picks a profile.\<close>

definition idle_handler :: ProfileHandler where
  "idle_handler =
     \<lparr>Pick = (\<lambda>w cycleState request ps rs. (w, [], rs)),
      ProcessResults = primary_results ''p1''\<rparr>"

text \<open>A handler that never picks a profile, and whose \<^verbatim>\<open>Pick\<close> writes a nil entry into
  the results map it is handed.\<close>

definition scribbling_handler :: ProfileHandler where
  "scribbling_handler =
     \<lparr>Pick = (\<lambda>w cycleState request ps rs. (w, [], rs(''ghost'' \<mapsto> None))),
      ProcessResults = (\<lambda>w cycleState request rs.
        (w, Some \<lparr>TargetPod = None, ProfileResults = rs\<rparr>, None))\<rparr>"

text \<open>A handler that picks all configured profiles in the first round and none after.\<close>

definition single_round_handler :: ProfileHandler where
  "single_round_handler =
     \<lparr>Pick = (\<lambda>w cycleState request ps rs. (w, if rs = Map.empty then ps else [], rs)),
      ProcessResults = primary_results ''p1''\<rparr>"

text \<open>A handler that picks \<open>p1\<close> first and, when the entry of \<open>p1\<close> is nil, falls back to
  \<open>p2\<close> in the next round; the target pod is taken from \<open>p2\<close> when \<open>p1\<close> failed.\<close>

definition fallback_handler :: ProfileHandler where
  "fallback_handler =
     \<lparr>Pick = (\<lambda>w cycleState request ps rs.
        (case rs ''p1'' of
           None \<Rightarrow> (w, filter (\<lambda>entry. fst entry = ''p1'') ps, rs)
         | Some None \<Rightarrow>
             (w, if rs ''p2'' = None then filter (\<lambda>entry. fst entry = ''p2'') ps else [], rs)
         | Some (Some r) \<Rightarrow> (w, [], rs))),
      ProcessResults = (\<lambda>w cycleState request rs.
        (case rs ''p1'' of
           Some (Some r) \<Rightarrow> primary_results ''p1'' w cycleState request rs
         | Some None \<Rightarrow> primary_results ''p2'' w cycleState request rs
         | None \<Rightarrow> primary_results ''p2'' w cycleState request rs))\<rparr>"

text \<open>A handler whose \<^verbatim>\<open>ProcessResults\<close> returns a result together with an error.\<close>

definition partial_handler :: ProfileHandler where
  "partial_handler =
     \<lparr>Pick = (\<lambda>w cycleState request ps rs. (w, if rs = Map.empty then ps else [], rs)),
      ProcessResults = (\<lambda>w cycleState request rs.
        (w, Some \<lparr>TargetPod = None, ProfileResults = rs\<rparr>, Some (Error ''no eligible pod'')))\<rparr>"

text \<open>A handler that picks \<open>p1\<close> in the first round, \<open>p2\<close> in the second and nothing in
  the third; each \<^verbatim>\<open>Pick\<close> notes in the cycle state which profile it asked for.\<close>

definition sequential_handler :: ProfileHandler where
  "sequential_handler =
     \<lparr>Pick = (\<lambda>w cycleState request ps rs.
        (case rs ''p1'' of
           None \<Rightarrow>
             (cs_write w cycleState ''asked'' ''p1'', filter (\<lambda>entry. fst entry = ''p1'') ps, rs)
         | Some r \<Rightarrow>
             (if rs ''p2'' = None
              then (cs_write w cycleState ''asked'' ''p2'',
                    filter (\<lambda>entry. fst entry = ''p2'') ps, rs)
              else (cs_write w cycleState ''asked'' ''nobody'', [], rs)))),
      ProcessResults = primary_results ''p1''\<rparr>"

text \<open>A handler that does the same, and whose second \<^verbatim>\<open>Pick\<close> deletes the entry of
  \<open>p1\<close> from the results map it is handed.\<close>

definition forgetful_handler :: ProfileHandler where
  "forgetful_handler =
     \<lparr>Pick = (\<lambda>w cycleState request ps rs.
        (if rs ''p2'' \<noteq> None then (w, [], rs)
         else if rs ''p1'' = None then (w, filter (\<lambda>entry. fst entry = ''p1'') ps, rs)
         else (w, filter (\<lambda>entry. fst entry = ''p2'') ps, rs(''p1'' := None)))),
      ProcessResults = primary_results ''p2''\<rparr>"


text \<open>A handler that picks \<open>p1\<close> again as long as the entry of \<open>p1\<close> is absent or nil.\<close>

definition retry_handler :: ProfileHandler where
  "retry_handler =
     \<lparr>Pick = (\<lambda>w cycleState request ps rs.
        (case rs ''p1'' of
           None \<Rightarrow> (w, filter (\<lambda>entry. fst entry = ''p1'') ps, rs)
         | Some None \<Rightarrow> (w, filter (\<lambda>entry. fst entry = ''p1'') ps, rs)
         | Some (Some r) \<Rightarrow> (w, [], rs))),
      ProcessResults = primary_results ''p1''\<rparr>"

definition idle_scheduler :: Scheduler where
  "idle_scheduler = \<lparr>profileHandler = idle_handler, profiles = [(''p1'', first_pod_profile)]\<rparr>"

definition scribbling_scheduler :: Scheduler where
  "scribbling_scheduler =
     \<lparr>profileHandler = scribbling_handler, profiles = [(''p1'', first_pod_profile)]\<rparr>"

definition fallback_scheduler :: Scheduler where
  "fallback_scheduler =
     \<lparr>profileHandler = fallback_handler,
      profiles = [(''p1'', failing_profile), (''p2'', first_pod_profile)]\<rparr>"

definition sequential_scheduler :: Scheduler where
  "sequential_scheduler =
     \<lparr>profileHandler = sequential_handler,
      profiles = [(''p1'', claiming_profile ''p1''), (''p2'', claiming_profile ''p2'')]\<rparr>"

definition forgetful_scheduler :: Scheduler where
  "forgetful_scheduler =
     \<lparr>profileHandler = forgetful_handler,
      profiles = [(''p1'', first_pod_profile), (''p2'', first_pod_profile)]\<rparr>"

definition claiming_scheduler :: Scheduler where
  "claiming_scheduler =
     \<lparr>profileHandler = single_round_handler,
      profiles = [(''p1'', claiming_profile ''p1''), (''p2'', claiming_profile ''p2'')]\<rparr>"

definition tagging_scheduler :: Scheduler where
  "tagging_scheduler =
     \<lparr>profileHandler = single_round_handler,
      profiles = [(''p1'', tagging_profile ''a''), (''p2'', tagging_profile ''b'')]\<rparr>"

definition partial_profile_scheduler :: Scheduler where
  "partial_profile_scheduler =
     \<lparr>profileHandler = single_round_handler, profiles = [(''p1'', partial_profile)]\<rparr>"

definition partial_handler_scheduler :: Scheduler where
  "partial_handler_scheduler =
     \<lparr>profileHandler = partial_handler, profiles = [(''p1'', first_pod_profile)]\<rparr>"

definition basic_scheduler :: Scheduler where
  "basic_scheduler =
     \<lparr>profileHandler = single_round_handler, profiles = [(''p1'', first_pod_profile)]\<rparr>"

definition isolation_scheduler :: Scheduler where
  "isolation_scheduler =
     \<lparr>profileHandler = single_round_handler,
      profiles = [(''p0'', failing_profile), (''p1'', first_pod_profile)]\<rparr>"

definition overwriting_scheduler :: Scheduler where
  "overwriting_scheduler =
     \<lparr>profileHandler = single_round_handler,
      profiles = [(''p0'', overwriting_profile), (''p1'', first_pod_profile)]\<rparr>"

definition counting_scheduler :: Scheduler where
  "counting_scheduler =
     \<lparr>profileHandler = single_round_handler, profiles = [(''p1'', counting_profile)]\<rparr>"


definition retry_scheduler :: Scheduler where
  "retry_scheduler =
     \<lparr>profileHandler = retry_handler, profiles = [(''p1'', second_try_profile)]\<rparr>"

section \<open>Properties of the loop\<close>

subsection \<open>One step of each kind\<close>

lemma run_profile_world [simp]:
  "world (run_profile rq cs (name, p) st) = fst (Run p (world st) rq cs (candidatePods st))"
  by (simp add: run_profile_def Let_def)

lemma run_profile_results [simp]:
  "profileRunResults (run_profile rq cs (name, p) st) =
     (profileRunResults st)(name \<mapsto> fst (snd (Run p (world st) rq cs (candidatePods st))))"
  by (simp add: run_profile_def Let_def)

lemma run_profile_pods [simp]:
  "candidatePods (run_profile rq cs (name, p) st) =
     overwritten (candidatePods st)
       (snd (snd (snd (Run p (world st) rq cs (candidatePods st)))))"
  by (simp add: run_profile_def Let_def)

lemma run_profile_calls [simp]:
  "calls (run_profile rq cs (name, p) st) =
     calls st @ [\<lparr>call = RunCall name p (candidatePods st), cs_ref = cs, before = world st,
                  after = fst (Run p (world st) rq cs (candidatePods st))\<rparr>]"
  by (simp add: run_profile_def Let_def)

lemma initial_state_world [simp]: "world (initial_state w pods) = snd (NewCycleState w)"
  by (simp add: initial_state_def)

lemma initial_state_results [simp]: "profileRunResults (initial_state w pods) = Map.empty"
  by (simp add: initial_state_def)

lemma initial_state_pods [simp]: "candidatePods (initial_state w pods) = pods"
  by (simp add: initial_state_def)

lemma initial_state_calls [simp]: "calls (initial_state w pods) = []"
  by (simp add: initial_state_def)

lemma after_pick_world [simp]:
  "world (after_pick s rq cs st) =
     fst (Pick (profileHandler s) (world st) cs rq (profiles s) (profileRunResults st))"
  by (simp add: after_pick_def Let_def)

lemma after_pick_results [simp]:
  "profileRunResults (after_pick s rq cs st) =
     snd (snd (Pick (profileHandler s) (world st) cs rq (profiles s) (profileRunResults st)))"
  by (simp add: after_pick_def Let_def)

lemma after_pick_pods [simp]: "candidatePods (after_pick s rq cs st) = candidatePods st"
  by (simp add: after_pick_def Let_def)

lemma after_pick_calls [simp]:
  "calls (after_pick s rq cs st) =
     calls st @ [\<lparr>call = PickCall (profileRunResults st), cs_ref = cs, before = world st,
                  after = fst (Pick (profileHandler s) (world st) cs rq (profiles s)
                                 (profileRunResults st))\<rparr>]"
  by (simp add: after_pick_def Let_def)

lemma overwritten_length [simp]: "length (overwritten xs ys) = length xs"
  by (induction xs ys rule: overwritten.induct) simp_all

lemma overwritten_same [simp]: "overwritten xs xs = xs"
  by (induction xs) simp_all

subsection \<open>When the loop ends\<close>

lemma rounds_unroll:
  "(\<forall>j<k. pick_profiles s rq cs (round_state s ro rq cs n j st) \<noteq> []) \<Longrightarrow>
   rounds s ro rq cs n st = rounds s ro rq cs (n + k) (round_state s ro rq cs n k st)"
proof (induction k arbitrary: n st)
  case 0
  then show ?case by simp
next
  case (Suc k)
  have ne: "pick_profiles s rq cs st \<noteq> []"
    using Suc.prems by force
  have "\<forall>j<k. pick_profiles s rq cs
          (round_state s ro rq cs (Suc n) j (round_body s ro rq cs n st)) \<noteq> []"
    using Suc.prems by force
  from Suc.IH [OF this] ne show ?case
    by (simp add: rounds.simps [of s ro rq cs n st])
qed

lemma ends_at_0: "pick_profiles s rq cs st = [] \<Longrightarrow> ends_at s ro rq cs n st 0"
  by (simp add: ends_at_def)

lemma ends_at_Suc:
  assumes "pick_profiles s rq cs st \<noteq> []"
    and "ends_at s ro rq cs (Suc n) (round_body s ro rq cs n st) k"
  shows "ends_at s ro rq cs n st (Suc k)"
  unfolding ends_at_def
proof (intro conjI allI impI)
  fix j assume "j < Suc k"
  then show "pick_profiles s rq cs (round_state s ro rq cs n j st) \<noteq> []"
    using assms by (cases j) (auto simp: ends_at_def)
next
  show "pick_profiles s rq cs (round_state s ro rq cs n (Suc k) st) = []"
    using assms(2) by (simp add: ends_at_def)
qed

lemma rounds_Some_D:
  assumes "rounds s ro rq cs n st = Some y"
  shows "\<exists>k. ends_at s ro rq cs n st k \<and>
             y = after_pick s rq cs (round_state s ro rq cs n k st)"
proof (rule rounds.raw_induct
    [where P = "\<lambda>s ro rq cs n st y. \<exists>k. ends_at s ro rq cs n st k \<and>
             y = after_pick s rq cs (round_state s ro rq cs n k st)", OF _ assms])
  fix rounds' s ro rq cs n st y
  assume IH: "\<And>s ro rq cs n st y. rounds' s ro rq cs n st = Some y \<Longrightarrow>
     \<exists>k. ends_at s ro rq cs n st k \<and>
             y = after_pick s rq cs (round_state s ro rq cs n k st)"
    and body: "(if length (pick_profiles s rq cs st) = 0 then Some (after_pick s rq cs st)
      else rounds' s ro rq cs (Suc n) (round_body s ro rq cs n st)) = Some y"
  show "\<exists>k. ends_at s ro rq cs n st k \<and>
             y = after_pick s rq cs (round_state s ro rq cs n k st)"
  proof (cases "pick_profiles s rq cs st = []")
    case True
    with body have "y = after_pick s rq cs st" by simp
    with True show ?thesis by (intro exI [of _ 0]) (simp add: ends_at_0)
  next
    case False
    with body have "rounds' s ro rq cs (Suc n) (round_body s ro rq cs n st) = Some y"
      by simp
    from IH [OF this] obtain k where
      k: "ends_at s ro rq cs (Suc n) (round_body s ro rq cs n st) k"
         "y = after_pick s rq cs
            (round_state s ro rq cs (Suc n) k (round_body s ro rq cs n st))"
      by blast
    from ends_at_Suc [OF False k(1)] k(2) show ?thesis
      by (intro exI [of _ "Suc k"]) simp
  qed
qed

lemma rounds_ends_at:
  assumes "ends_at s ro rq cs n st k"
  shows "rounds s ro rq cs n st = Some (after_pick s rq cs (round_state s ro rq cs n k st))"
proof -
  have "rounds s ro rq cs n st = rounds s ro rq cs (n + k) (round_state s ro rq cs n k st)"
    using assms by (intro rounds_unroll) (simp add: ends_at_def)
  also have "\<dots> = Some (after_pick s rq cs (round_state s ro rq cs n k st))"
    using assms by (simp add: ends_at_def rounds.simps [of s ro rq cs "n + k"])
  finally show ?thesis .
qed

lemma first_empty_pick:
  assumes "pick_profiles s rq cs (round_state s ro rq cs n k st) = []"
  shows "\<exists>k. ends_at s ro rq cs n st k"
proof -
  let ?P = "\<lambda>k. pick_profiles s rq cs (round_state s ro rq cs n k st) = []"
  from assms have "\<exists>k. ?P k" by blast
  then have "\<exists>k. ?P k \<and> (\<forall>j<k. \<not> ?P j)"
    by (simp add: exists_least_iff [symmetric])
  then show ?thesis by (auto simp: ends_at_def)
qed

subsection \<open>Invariants of the loop\<close>

lemma run_profiles_invariant:
  assumes step: "\<And>st e. I st \<Longrightarrow> I (run_profile rq cs e st)"
  shows "I st \<Longrightarrow> I (run_profiles rq cs wave st)"
  by (induction wave arbitrary: st) (simp_all add: step)

lemma round_state_invariant:
  assumes pick: "\<And>st. I st \<Longrightarrow> I (after_pick s rq cs st)"
    and run: "\<And>st e. I st \<Longrightarrow> I (run_profile rq cs e st)"
  shows "I st \<Longrightarrow> I (round_state s ro rq cs n k st)"
proof (induction k arbitrary: n st)
  case 0
  then show ?case by simp
next
  case (Suc k)
  have "I (round_body s ro rq cs n st)"
    unfolding round_body_def
    by (rule run_profiles_invariant [where I = I and rq = rq and cs = cs])
      (simp_all add: run pick Suc.prems)
  then show ?case by (simp add: Suc.IH)
qed

lemma rounds_invariant:
  assumes "rounds s ro rq cs n st = Some y"
    and "I st"
    and pick: "\<And>st. I st \<Longrightarrow> I (after_pick s rq cs st)"
    and run: "\<And>st e. I st \<Longrightarrow> I (run_profile rq cs e st)"
  shows "I y"
proof -
  from rounds_Some_D [OF assms(1)] obtain k where
    "y = after_pick s rq cs (round_state s ro rq cs n k st)" by blast
  moreover have "I (round_state s ro rq cs n k st)"
    by (rule round_state_invariant [where I = I and s = s and rq = rq and cs = cs])
      (simp_all add: run pick assms(2))
  ultimately show ?thesis by (simp add: pick)
qed

lemmas example_defs =
  Schedule_def initial_state_def Let_def NewCycleState_def empty_store_def rounds.simps
  pick_profiles_def after_pick_def round_body_def run_profile_def
  visit_forward_def visit_backward_def
  finish_def NoProfilesRun_def primary_results_def request_r1_def pod_A_def pod_B_def
  cs_read_def cs_write_def
  idle_handler_def scribbling_handler_def single_round_handler_def fallback_handler_def
  sequential_handler_def forgetful_handler_def partial_handler_def retry_handler_def
  idle_scheduler_def scribbling_scheduler_def fallback_scheduler_def sequential_scheduler_def
  forgetful_scheduler_def claiming_scheduler_def tagging_scheduler_def
  partial_profile_scheduler_def partial_handler_scheduler_def basic_scheduler_def
  isolation_scheduler_def retry_scheduler_def overwriting_scheduler_def
  counting_scheduler_def counting_profile_def
  first_pod_profile_def failing_profile_def partial_profile_def claiming_profile_def
  tagging_profile_def second_try_profile_def overwriting_profile_def

subsection \<open>The whole call\<close>

lemma Schedule_Some:
  assumes "rounds s ro rq (fst (NewCycleState w)) 0 (initial_state w pods) = Some st"
  shows "Schedule s ro w rq pods = Some (finish s rq (fst (NewCycleState w)) st)"
  using assms by (simp add: Schedule_def Let_def)

lemma Schedule_SomeD:
  assumes "Schedule s ro w rq pods = Some out"
  shows "\<exists>st. rounds s ro rq (fst (NewCycleState w)) 0 (initial_state w pods) = Some st \<and>
             out = finish s rq (fst (NewCycleState w)) st"
  using assms by (auto simp: Schedule_def Let_def)

lemma finish_trace:
  "trace (finish s rq cs st) =
     (if profileRunResults st = Map.empty then calls st
      else calls st @
        [\<lparr>call = ProcessResultsCall (profileRunResults st), cs_ref = cs, before = world st,
          after = fst (ProcessResults (profileHandler s) (world st) cs rq (profileRunResults st))\<rparr>])"
  by (simp add: finish_def Let_def)

lemma finish_final_world:
  "final_world (finish s rq cs st) =
     (if profileRunResults st = Map.empty then world st
      else fst (ProcessResults (profileHandler s) (world st) cs rq (profileRunResults st)))"
  by (simp add: finish_def Let_def)

lemma finish_result:
  "result (finish s rq cs st) =
     (if profileRunResults st = Map.empty then None
      else fst (snd (ProcessResults (profileHandler s) (world st) cs rq (profileRunResults st))))"
  by (simp add: finish_def Let_def)

lemma finish_err:
  "err (finish s rq cs st) =
     (if profileRunResults st = Map.empty then Some (NoProfilesRun rq)
      else snd (snd (ProcessResults (profileHandler s) (world st) cs rq (profileRunResults st))))"
  by (simp add: finish_def Let_def)

subsection \<open>The call record is a chain\<close>

lemma last_after_append [simp]:
  "last_after w (xs @ ys) = last_after (last_after w xs) ys"
  by (induction xs arbitrary: w) simp_all

lemma chained_append [simp]:
  "chained r w (xs @ ys) \<longleftrightarrow> chained r w xs \<and> chained r (last_after w xs) ys"
  by (induction xs arbitrary: w) auto




lemma chain_inv_initial: "chain_inv s rq (fst (NewCycleState w)) (snd (NewCycleState w))
    (initial_state w pods)"
  by (simp add: chain_inv_def)

lemma chain_inv_after_pick:
  "chain_inv s rq cs w st \<Longrightarrow> chain_inv s rq cs w (after_pick s rq cs st)"
  by (simp add: chain_inv_def)

lemma chain_inv_run_profile:
  "chain_inv s rq cs w st \<Longrightarrow> chain_inv s rq cs w (run_profile rq cs e st)"
  by (cases e) (simp add: chain_inv_def)

lemma round_state_chain_inv:
  "chain_inv s rq cs w st \<Longrightarrow> chain_inv s rq cs w (round_state s ro rq cs n k st)"
  by (rule round_state_invariant [where I = "chain_inv s rq cs w" and s = s and rq = rq and cs = cs])
    (simp_all add: chain_inv_after_pick chain_inv_run_profile)

lemma chain_inv_finish:
  assumes "chain_inv s rq cs w st"
  shows "chained cs w (trace (finish s rq cs st)) \<and>
         final_world (finish s rq cs st) = last_after w (trace (finish s rq cs st)) \<and>
         (\<forall>e \<in> set (trace (finish s rq cs st)). after e = returned_store s rq e)"
  using assms by (simp add: finish_trace finish_final_world chain_inv_def)

subsection \<open>The results collection is the replay of the calls\<close>

lemma replay_append [simp]:
  "replay s rq rs (xs @ ys) = replay s rq (replay s rq rs xs) ys"
  by (induction xs arbitrary: rs) simp_all

lemma inputs_replayed_Nil [simp]: "inputs_replayed s rq []"
  by (simp add: inputs_replayed_def)

lemma inputs_replayed_snoc:
  "inputs_replayed s rq (es @ [e]) \<longleftrightarrow>
     inputs_replayed s rq es \<and>
     (\<forall>r. input_results e = Some r \<longrightarrow> r = replay s rq Map.empty es)"
proof
  assume a: "inputs_replayed s rq (es @ [e])"
  have "inputs_replayed s rq es"
    unfolding inputs_replayed_def
  proof (intro allI impI)
    fix j r assume j: "j < length es" and r: "input_results (es ! j) = Some r"
    from j have "j < length (es @ [e])" by simp
    moreover from j r have "input_results ((es @ [e]) ! j) = Some r"
      by (simp add: nth_append)
    ultimately have "r = replay s rq Map.empty (take j (es @ [e]))"
      using a unfolding inputs_replayed_def by blast
    with j show "r = replay s rq Map.empty (take j es)" by simp
  qed
  moreover have "\<forall>r. input_results e = Some r \<longrightarrow> r = replay s rq Map.empty es"
  proof (intro allI impI)
    fix r assume r: "input_results e = Some r"
    have "length es < length (es @ [e])" by simp
    moreover from r have "input_results ((es @ [e]) ! length es) = Some r" by simp
    ultimately have "r = replay s rq Map.empty (take (length es) (es @ [e]))"
      using a unfolding inputs_replayed_def by blast
    then show "r = replay s rq Map.empty es" by simp
  qed
  ultimately show "inputs_replayed s rq es \<and>
      (\<forall>r. input_results e = Some r \<longrightarrow> r = replay s rq Map.empty es)" by blast
next
  assume a: "inputs_replayed s rq es \<and>
      (\<forall>r. input_results e = Some r \<longrightarrow> r = replay s rq Map.empty es)"
  show "inputs_replayed s rq (es @ [e])"
    unfolding inputs_replayed_def
  proof (intro allI impI)
    fix j r assume j: "j < length (es @ [e])" and r: "input_results ((es @ [e]) ! j) = Some r"
    show "r = replay s rq Map.empty (take j (es @ [e]))"
    proof (cases "j < length es")
      case True
      with r have "input_results (es ! j) = Some r" by (simp add: nth_append)
      with a True have "r = replay s rq Map.empty (take j es)"
        unfolding inputs_replayed_def by blast
      with True show ?thesis by simp
    next
      case False
      with j have "j = length es" by simp
      with a r show ?thesis by simp
    qed
  qed
qed

lemma replay_inv_after_pick:
  "replay_inv s rq st \<Longrightarrow> replay_inv s rq (after_pick s rq cs st)"
  by (simp add: replay_inv_def inputs_replayed_snoc)

lemma replay_inv_run_profile:
  "replay_inv s rq st \<Longrightarrow> replay_inv s rq (run_profile rq cs e st)"
  by (cases e) (simp add: replay_inv_def inputs_replayed_snoc)

lemma round_state_replay_inv:
  "replay_inv s rq st \<Longrightarrow> replay_inv s rq (round_state s ro rq cs n k st)"
  by (rule round_state_invariant [where I = "replay_inv s rq" and s = s and rq = rq and cs = cs])
    (simp_all add: replay_inv_after_pick replay_inv_run_profile)

lemma replay_inv_finish:
  assumes "replay_inv s rq st"
  shows "inputs_replayed s rq (trace (finish s rq cs st))"
  using assms by (simp add: finish_trace replay_inv_def inputs_replayed_snoc)

subsection \<open>Which calls the loop makes\<close>

lemma loop_calls_inv_after_pick:
  "loop_calls_inv st \<Longrightarrow> loop_calls_inv (after_pick s rq cs st)"
  by (simp add: loop_calls_inv_def)

lemma loop_calls_inv_run_profile:
  "loop_calls_inv st \<Longrightarrow> loop_calls_inv (run_profile rq cs e st)"
  by (cases e) (simp add: loop_calls_inv_def)

lemma rounds_loop_calls_inv:
  assumes "rounds s ro rq cs n st = Some y" and "loop_calls_inv st"
  shows "loop_calls_inv y"
  by (rule rounds_invariant [where I = loop_calls_inv and s = s and rq = rq and cs = cs,
        OF assms])
    (simp_all add: loop_calls_inv_after_pick loop_calls_inv_run_profile)

lemma filter_no_ProcessResultsCall:
  "\<forall>e \<in> set es. \<not> is_ProcessResultsCall e \<Longrightarrow> filter is_ProcessResultsCall es = []"
  by (induction es) simp_all

subsection \<open>The call record of a call that returns or is still in its loop\<close>

lemma call_record_invariants:
  assumes "Schedule s ro w rq pods = Some out \<and> tr = trace out \<or>
           reaches_round s ro rq (fst (NewCycleState w)) (initial_state w pods) k \<and>
           tr = calls (round_state s ro rq (fst (NewCycleState w)) 0 k (initial_state w pods))"
  shows "chained (fst (NewCycleState w)) (snd (NewCycleState w)) tr"
    and "\<forall>e \<in> set tr. after e = returned_store s rq e"
    and "inputs_replayed s rq tr"
proof -
  let ?cs = "fst (NewCycleState w)" and ?w0 = "snd (NewCycleState w)"
  let ?st0 = "initial_state w pods"
  have c: "chain_inv s rq ?cs ?w0 (round_state s ro rq ?cs 0 j ?st0)" for j
    by (rule round_state_chain_inv) (simp add: chain_inv_def)
  have r: "replay_inv s rq (round_state s ro rq ?cs 0 j ?st0)" for j
    by (rule round_state_replay_inv) (simp add: replay_inv_def)
  have ret: "chain_inv s rq ?cs ?w0 st \<and> replay_inv s rq st"
    if "rounds s ro rq ?cs 0 ?st0 = Some st" for st
  proof -
    from rounds_Some_D [OF that] obtain j where
      "st = after_pick s rq ?cs (round_state s ro rq ?cs 0 j ?st0)" by blast
    with c [of j] r [of j] show ?thesis
      by (simp add: chain_inv_after_pick replay_inv_after_pick)
  qed
  show "chained ?cs ?w0 tr"
    using assms
  proof
    assume a: "Schedule s ro w rq pods = Some out \<and> tr = trace out"
    with Schedule_SomeD [of s ro w rq pods out] obtain st where
      st: "rounds s ro rq ?cs 0 ?st0 = Some st" "out = finish s rq ?cs st" by blast
    from ret [OF st(1)] chain_inv_finish [of s rq ?cs ?w0 st] a st(2)
    show ?thesis by simp
  next
    assume "reaches_round s ro rq ?cs ?st0 k \<and> tr = calls (round_state s ro rq ?cs 0 k ?st0)"
    with c [of k] show ?thesis by (simp add: chain_inv_def)
  qed
  show "\<forall>e \<in> set tr. after e = returned_store s rq e"
    using assms
  proof
    assume a: "Schedule s ro w rq pods = Some out \<and> tr = trace out"
    with Schedule_SomeD [of s ro w rq pods out] obtain st where
      st: "rounds s ro rq ?cs 0 ?st0 = Some st" "out = finish s rq ?cs st" by blast
    from ret [OF st(1)] chain_inv_finish [of s rq ?cs ?w0 st] a st(2)
    show ?thesis by simp
  next
    assume "reaches_round s ro rq ?cs ?st0 k \<and> tr = calls (round_state s ro rq ?cs 0 k ?st0)"
    with c [of k] show ?thesis by (simp add: chain_inv_def)
  qed
  show "inputs_replayed s rq tr"
    using assms
  proof
    assume a: "Schedule s ro w rq pods = Some out \<and> tr = trace out"
    with Schedule_SomeD [of s ro w rq pods out] obtain st where
      st: "rounds s ro rq ?cs 0 ?st0 = Some st" "out = finish s rq ?cs st" by blast
    from ret [OF st(1)] replay_inv_finish [of s rq st ?cs] a st(2)
    show ?thesis by simp
  next
    assume "reaches_round s ro rq ?cs ?st0 k \<and> tr = calls (round_state s ro rq ?cs 0 k ?st0)"
    with r [of k] show ?thesis by (simp add: replay_inv_def)
  qed
qed

lemma Schedule_settled:
  assumes "Schedule s ro w rq pods = Some out"
  shows "settled_by_last_call s rq out"
proof -
  let ?cs = "fst (NewCycleState w)"
  let ?st0 = "initial_state w pods"
  from Schedule_SomeD [OF assms] obtain st where
    st: "rounds s ro rq ?cs 0 ?st0 = Some st" and out: "out = finish s rq ?cs st" by blast
  from rounds_Some_D [OF st] obtain j where
    j: "st = after_pick s rq ?cs (round_state s ro rq ?cs 0 j ?st0)" by blast
  show ?thesis
  proof (cases "profileRunResults st = Map.empty")
    case True
    then show ?thesis
      unfolding settled_by_last_call_def out
      by (simp add: finish_trace finish_final_world finish_result finish_err j)
  next
    case False
    then show ?thesis
      unfolding settled_by_last_call_def out
      by (simp add: finish_trace finish_final_world finish_result finish_err)
  qed
qed

subsection \<open>An empty first pick\<close>

text \<open>
  C2. When the first call of \<^verbatim>\<open>Pick\<close> returns an empty map, \<^verbatim>\<open>Schedule\<close> returns and no
  profile is run. What it returns depends on the results map, which \<^verbatim>\<open>Pick\<close> was handed
  and may have written: if \<^verbatim>\<open>Pick\<close> left it empty, \<^verbatim>\<open>Schedule\<close> returns no result and the
  error "failed to run any scheduler profile for request" followed by the request id, and
  that \<^verbatim>\<open>Pick\<close> is the only plugin call; if \<^verbatim>\<open>Pick\<close> left an entry in it, \<^verbatim>\<open>Schedule\<close>
  calls \<^verbatim>\<open>ProcessResults\<close> on the map as \<^verbatim>\<open>Pick\<close> left it and returns what that call
  returns.
\<close>

theorem Schedule_empty_first_pick:
  assumes "Pick (profileHandler s) (snd (NewCycleState w)) (fst (NewCycleState w))
             request (profiles s) Map.empty = (w', [], rs)"
  shows "\<exists>out. Schedule s ro w request pods = Some out \<and>
           run_entries (trace out) = [] \<and>
           (rs = Map.empty \<longrightarrow>
              result out = None \<and>
              err out = Some (Error (''failed to run any scheduler profile for request '' @
                                      RequestId request)) \<and>
              final_world out = w' \<and>
              map call (trace out) = [PickCall Map.empty]) \<and>
           (rs \<noteq> Map.empty \<longrightarrow>
              (final_world out, result out, err out) =
                ProcessResults (profileHandler s) w' (fst (NewCycleState w)) request rs \<and>
              map call (trace out) = [PickCall Map.empty, ProcessResultsCall rs])"
proof -
  let ?cs = "fst (NewCycleState w)"
  let ?st0 = "initial_state w pods"
  have "pick_profiles s request ?cs ?st0 = []"
    using assms by (simp add: pick_profiles_def)
  then have "rounds s ro request ?cs 0 ?st0 = Some (after_pick s request ?cs ?st0)"
    by (simp add: rounds.simps [of s ro request ?cs 0 ?st0])
  from Schedule_Some [OF this]
  have sch: "Schedule s ro w request pods =
               Some (finish s request ?cs (after_pick s request ?cs ?st0))" .
  have w': "world (after_pick s request ?cs ?st0) = w'"
    and rs: "profileRunResults (after_pick s request ?cs ?st0) = rs"
    and tr: "map call (calls (after_pick s request ?cs ?st0)) = [PickCall Map.empty]"
    using assms by simp_all
  have runs: "run_entries (calls (after_pick s request ?cs ?st0)) = []"
    by simp
  show ?thesis
  proof (cases "rs = Map.empty")
    case True
    with sch w' rs tr runs show ?thesis
      by (simp add: finish_trace finish_result finish_err finish_final_world NoProfilesRun_def)
  next
    case False
    with sch w' rs tr runs show ?thesis
      by (simp add: finish_trace finish_result finish_err finish_final_world)
  qed
qed

theorem Schedule_empty_first_pick_witness:
  "Pick (profileHandler idle_scheduler) (snd (NewCycleState empty_store))
      (fst (NewCycleState empty_store)) request_r1 (profiles idle_scheduler) Map.empty =
     (snd (NewCycleState empty_store), [], Map.empty) \<and>
   (\<exists>out. Schedule idle_scheduler visit_forward empty_store request_r1 [pod_A] = Some out \<and>
          run_entries (trace out) = [] \<and>
          result out = None \<and>
          err out = Some (Error ''failed to run any scheduler profile for request r1'') \<and>
          map call (trace out) = [PickCall Map.empty]) \<and>
   Pick (profileHandler scribbling_scheduler) (snd (NewCycleState empty_store))
      (fst (NewCycleState empty_store)) request_r1 (profiles scribbling_scheduler) Map.empty =
     (snd (NewCycleState empty_store), [], [''ghost'' \<mapsto> None]) \<and>
   (\<exists>out. Schedule scribbling_scheduler visit_forward empty_store request_r1 [pod_A] = Some out \<and>
          run_entries (trace out) = [] \<and>
          result out = Some \<lparr>TargetPod = None, ProfileResults = [''ghost'' \<mapsto> None]\<rparr> \<and>
          err out = None \<and>
          map call (trace out) = [PickCall Map.empty, ProcessResultsCall [''ghost'' \<mapsto> None]])"
proof -
  have h1: "Pick (profileHandler idle_scheduler) (snd (NewCycleState empty_store))
      (fst (NewCycleState empty_store)) request_r1 (profiles idle_scheduler) Map.empty =
     (snd (NewCycleState empty_store), [], Map.empty)"
    by (simp add: idle_scheduler_def idle_handler_def)
  have h2: "Pick (profileHandler scribbling_scheduler) (snd (NewCycleState empty_store))
      (fst (NewCycleState empty_store)) request_r1 (profiles scribbling_scheduler) Map.empty =
     (snd (NewCycleState empty_store), [], [''ghost'' \<mapsto> None])"
    by (simp add: scribbling_scheduler_def scribbling_handler_def)
  have ne: "[''ghost'' \<mapsto> (None :: ProfileRunResult option)] \<noteq> Map.empty"
    by simp
  from Schedule_empty_first_pick [OF h1, of visit_forward "[pod_A]"]
  have c1: "\<exists>out. Schedule idle_scheduler visit_forward empty_store request_r1 [pod_A] = Some out \<and>
          run_entries (trace out) = [] \<and>
          result out = None \<and>
          err out = Some (Error ''failed to run any scheduler profile for request r1'') \<and>
          map call (trace out) = [PickCall Map.empty]"
    by (auto simp: request_r1_def)
  from Schedule_empty_first_pick [OF h2, of visit_forward "[pod_A]"] ne
  have c2: "\<exists>out. Schedule scribbling_scheduler visit_forward empty_store request_r1 [pod_A] =
             Some out \<and>
          run_entries (trace out) = [] \<and>
          result out = Some \<lparr>TargetPod = None, ProfileResults = [''ghost'' \<mapsto> None]\<rparr> \<and>
          err out = None \<and>
          map call (trace out) = [PickCall Map.empty, ProcessResultsCall [''ghost'' \<mapsto> None]]"
    by (auto simp: scribbling_scheduler_def scribbling_handler_def)
  from h1 c1 h2 c2 show ?thesis by blast
qed

text \<open>
  The first \<^verbatim>\<open>Pick\<close> of the handler below returns an empty map after writing a nil entry
  into the results map. \<^verbatim>\<open>Schedule\<close> then finds the results map not empty (line 97), calls
  \<^verbatim>\<open>ProcessResults\<close>, and returns its result with no error.
\<close>

theorem empty_first_pick_counterexample:
  "fst (snd (Pick (profileHandler scribbling_scheduler) (snd (NewCycleState empty_store))
      (fst (NewCycleState empty_store)) request_r1 (profiles scribbling_scheduler) Map.empty)) = [] \<and>
   map_option (\<lambda>out. (result out, err out, map call (trace out)))
     (Schedule scribbling_scheduler visit_forward empty_store request_r1 [pod_A]) =
   Some (Some \<lparr>TargetPod = None, ProfileResults = [''ghost'' \<mapsto> None]\<rparr>, None,
         [PickCall Map.empty, ProcessResultsCall [''ghost'' \<mapsto> None]])"
proof -
  have "fst (snd (Pick (profileHandler scribbling_scheduler) (snd (NewCycleState empty_store))
      (fst (NewCycleState empty_store)) request_r1 (profiles scribbling_scheduler) Map.empty)) = []"
    by (simp add: example_defs)
  moreover have "map_option (\<lambda>out. (result out, err out, map call (trace out)))
     (Schedule scribbling_scheduler visit_forward empty_store request_r1 [pod_A]) =
   Some (Some \<lparr>TargetPod = None, ProfileResults = [''ghost'' \<mapsto> None]\<rparr>, None,
         [PickCall Map.empty, ProcessResultsCall [''ghost'' \<mapsto> None]])"
    by (simp add: example_defs)
  ultimately show ?thesis by blast
qed

subsection \<open>The call of ProcessResults\<close>

text \<open>
  C3. When the results collection is not empty at the end of the loop, \<^verbatim>\<open>Schedule\<close> calls
  \<^verbatim>\<open>ProcessResults\<close> once, as its last plugin call, on the store and the results collection
  the loop ended with, and returns the result and the error of that call unchanged.
\<close>

theorem Schedule_returns_ProcessResults:
  assumes "rounds s ro rq (fst (NewCycleState w)) 0 (initial_state w pods) = Some st"
    and "profileRunResults st \<noteq> Map.empty"
  shows "\<exists>out. Schedule s ro w rq pods = Some out \<and>
           (final_world out, result out, err out) =
             ProcessResults (profileHandler s) (world st) (fst (NewCycleState w)) rq
               (profileRunResults st) \<and>
           length (filter is_ProcessResultsCall (trace out)) = 1 \<and>
           call (last (trace out)) = ProcessResultsCall (profileRunResults st) \<and>
           before (last (trace out)) = world st"
proof -
  let ?cs = "fst (NewCycleState w)"
  let ?st0 = "initial_state w pods"
  have "loop_calls_inv ?st0" by (simp add: loop_calls_inv_def)
  from rounds_loop_calls_inv [OF assms(1) this]
  have "\<forall>e \<in> set (calls st). \<not> is_ProcessResultsCall e"
    by (simp add: loop_calls_inv_def)
  then have "filter is_ProcessResultsCall (calls st) = []"
    by (rule filter_no_ProcessResultsCall)
  with Schedule_Some [OF assms(1)] assms(2) show ?thesis
    by (simp add: finish_def Let_def)
qed

theorem Schedule_returns_ProcessResults_witness:
  "map_option (\<lambda>st. (profileRunResults st ''p1'', profileRunResults st ''p2''))
     (rounds fallback_scheduler visit_forward request_r1 (fst (NewCycleState empty_store)) 0
        (initial_state empty_store [pod_A])) =
     Some (Some None, Some (Some \<lparr>SelectedPod = Some pod_A, Scores = [(''A'', 1)]\<rparr>)) \<and>
   map_option (\<lambda>out. (result out, err out, map is_ProcessResultsCall (trace out)))
     (Schedule fallback_scheduler visit_forward empty_store request_r1 [pod_A]) =
     Some (Some \<lparr>TargetPod = Some pod_A,
                  ProfileResults = [''p1'' \<mapsto> None,
                    ''p2'' \<mapsto> Some \<lparr>SelectedPod = Some pod_A, Scores = [(''A'', 1)]\<rparr>]\<rparr>,
           None, [False, False, False, False, False, True])"
proof -
  let ?st = "the (rounds fallback_scheduler visit_forward request_r1
        (fst (NewCycleState empty_store)) 0 (initial_state empty_store [pod_A]))"
  have h: "rounds fallback_scheduler visit_forward request_r1
        (fst (NewCycleState empty_store)) 0 (initial_state empty_store [pod_A]) = Some ?st"
    by (simp add: example_defs)
  have ne: "profileRunResults ?st \<noteq> Map.empty"
    by (simp add: example_defs)
  from Schedule_returns_ProcessResults [OF h ne] show ?thesis
    by (simp add: example_defs)
qed

subsection \<open>Termination of the loop\<close>

text \<open>
  C7. The loop has no bound and ends exactly when \<^verbatim>\<open>Pick\<close> returns an empty map: it
  returns if and only if the \<^verbatim>\<open>Pick\<close> of some round returns an empty map (so with a handler
  that always picks something it never returns); it returns at the first such round and
  not before; a \<^verbatim>\<open>Pick\<close> that is not empty is followed by the runs of the round and the next
  round.
\<close>

theorem loop_ends_exactly_on_empty_pick:
  "(rounds s ro rq cs n st \<noteq> None \<longleftrightarrow>
      (\<exists>k. pick_profiles s rq cs (round_state s ro rq cs n k st) = [])) \<and>
   (\<forall>k. ends_at s ro rq cs n st k \<longrightarrow>
      rounds s ro rq cs n st =
        Some (after_pick s rq cs (round_state s ro rq cs n k st))) \<and>
   (pick_profiles s rq cs st \<noteq> [] \<longrightarrow>
      rounds s ro rq cs n st =
        rounds s ro rq cs (Suc n) (round_body s ro rq cs n st)) \<and>
   (pick_profiles s rq cs st = [] \<longrightarrow>
      rounds s ro rq cs n st = Some (after_pick s rq cs st))"
proof -
  have iff: "rounds s ro rq cs n st \<noteq> None \<longleftrightarrow>
      (\<exists>k. pick_profiles s rq cs (round_state s ro rq cs n k st) = [])"
  proof
    assume "rounds s ro rq cs n st \<noteq> None"
    then obtain y where "rounds s ro rq cs n st = Some y" by blast
    from rounds_Some_D [OF this] show
      "\<exists>k. pick_profiles s rq cs (round_state s ro rq cs n k st) = []"
      by (auto simp: ends_at_def)
  next
    assume "\<exists>k. pick_profiles s rq cs (round_state s ro rq cs n k st) = []"
    then obtain k where "ends_at s ro rq cs n st k"
      using first_empty_pick by blast
    from rounds_ends_at [OF this] show "rounds s ro rq cs n st \<noteq> None" by simp
  qed
  have first: "\<forall>k. ends_at s ro rq cs n st k \<longrightarrow>
      rounds s ro rq cs n st =
        Some (after_pick s rq cs (round_state s ro rq cs n k st))"
    by (simp add: rounds_ends_at)
  have again: "pick_profiles s rq cs st \<noteq> [] \<longrightarrow>
      rounds s ro rq cs n st =
        rounds s ro rq cs (Suc n) (round_body s ro rq cs n st)"
    by (simp add: rounds.simps [of s ro rq cs n st])
  have stop: "pick_profiles s rq cs st = [] \<longrightarrow>
      rounds s ro rq cs n st = Some (after_pick s rq cs st)"
    by (simp add: rounds.simps [of s ro rq cs n st])
  from iff first again stop show ?thesis by blast
qed

lemma ends_at_fallback:
  "ends_at fallback_scheduler visit_forward request_r1 0 0
     (initial_state empty_store [pod_A]) 2"
proof -
  have "\<forall>j<2. j = 0 \<or> j = Suc 0" by auto
  then show ?thesis
    unfolding ends_at_def
    by (auto simp: eval_nat_numeral example_defs)
qed

theorem loop_ends_exactly_on_empty_pick_witness:
  "ends_at fallback_scheduler visit_forward request_r1 0 0
     (initial_state empty_store [pod_A]) 2 \<and>
   map fst (pick_profiles fallback_scheduler request_r1 0
     (initial_state empty_store [pod_A])) =
     [''p1''] \<and>
   map_option (\<lambda>st. map call (calls st))
     (rounds fallback_scheduler visit_forward request_r1 0 0
        (initial_state empty_store [pod_A])) =
     Some [PickCall Map.empty, RunCall ''p1'' failing_profile [pod_A],
           PickCall [''p1'' \<mapsto> None], RunCall ''p2'' first_pod_profile [pod_A],
           PickCall [''p1'' \<mapsto> None,
             ''p2'' \<mapsto> Some \<lparr>SelectedPod = Some pod_A, Scores = [(''A'', 1)]\<rparr>]]"
proof -
  let ?st0 = "initial_state empty_store [pod_A]"
  note e = ends_at_fallback
  from loop_ends_exactly_on_empty_pick
         [of fallback_scheduler visit_forward request_r1 0 0 ?st0] e
  have "rounds fallback_scheduler visit_forward request_r1 0 0 ?st0 =
        Some (after_pick fallback_scheduler request_r1 0
               (round_state fallback_scheduler visit_forward request_r1 0 0 2 ?st0))"
    by blast
  with e show ?thesis
    by (simp add: eval_nat_numeral example_defs)
qed

subsection \<open>One cycle state\<close>





subsection \<open>What the handler is handed\<close>

lemma replay_step_kept:
  assumes "inputs_replayed s rq tr" and "m < length tr"
    and "pick_keeps s rq name (tr ! m)" and "run_name (tr ! m) \<noteq> Some name"
  shows "replay s rq Map.empty (take (Suc m) tr) name = replay s rq Map.empty (take m tr) name"
proof -
  from assms(2) have t: "take (Suc m) tr = take m tr @ [tr ! m]"
    by (simp add: take_Suc_conv_app_nth)
  show ?thesis
  proof (cases "call (tr ! m)")
    case (PickCall rs)
    then have "input_results (tr ! m) = Some rs" by simp
    with assms(1,2) have "rs = replay s rq Map.empty (take m tr)"
      unfolding inputs_replayed_def by blast
    with PickCall assms(3) show ?thesis
      unfolding t by simp
  next
    case (RunCall name' p pods')
    with assms(4) show ?thesis
      unfolding t by simp
  next
    case (ProcessResultsCall rs)
    then show ?thesis
      unfolding t by simp
  qed
qed


lemma replay_kept:
  assumes "inputs_replayed s rq tr" and "i \<le> j" and "j \<le> length tr"
    and "\<forall>m. i \<le> m \<and> m < j \<longrightarrow>
           pick_keeps s rq name (tr ! m) \<and> run_name (tr ! m) \<noteq> Some name"
  shows "replay s rq Map.empty (take j tr) name = replay s rq Map.empty (take i tr) name"
  using assms(2,3,4)
proof (induction j rule: dec_induct)
  case base
  then show ?case by simp
next
  case (step n)
  from step.prems step.hyps have
    "replay s rq Map.empty (take (Suc n) tr) name = replay s rq Map.empty (take n tr) name"
    by (intro replay_step_kept [OF assms(1)]) simp_all
  moreover from step have
    "replay s rq Map.empty (take n tr) name = replay s rq Map.empty (take i tr) name"
    by simp
  ultimately show ?case by simp
qed


lemma replay_after_run:
  assumes "k < length tr" and "call (tr ! k) = RunCall name p pods'"
  shows "replay s rq Map.empty (take (Suc k) tr) name =
           Some (fst (snd (Run p (before (tr ! k)) rq (cs_ref (tr ! k)) pods')))"
proof -
  from assms(1) have "take (Suc k) tr = take k tr @ [tr ! k]"
    by (simp add: take_Suc_conv_app_nth)
  with assms(2) show ?thesis by simp
qed

lemma input_is_replay:
  assumes "inputs_replayed s rq tr" and "j < length tr" and "input_results (tr ! j) = Some r"
  shows "r = replay s rq Map.empty (take j tr)"
  using assms unfolding inputs_replayed_def by blast

lemma input_after_run:
  assumes "inputs_replayed s rq tr"
    and "k < j" and "j < length tr"
    and "call (tr ! k) = RunCall name p pods'"
    and "input_results (tr ! j) = Some r"
    and "\<forall>m. k < m \<and> m < j \<longrightarrow>
           run_name (tr ! m) \<noteq> Some name \<and> pick_keeps s rq name (tr ! m)"
  shows "r name = Some (fst (snd (Run p (before (tr ! k)) rq (cs_ref (tr ! k)) pods')))"
proof -
  have r: "r = replay s rq Map.empty (take j tr)"
    by (rule input_is_replay [OF assms(1,3,5)])
  from assms(2,3) have k: "k < length tr" by simp
  have b: "Suc k \<le> j" "j \<le> length tr" using assms(2,3) by simp_all
  have c: "\<forall>m. Suc k \<le> m \<and> m < j \<longrightarrow>
             pick_keeps s rq name (tr ! m) \<and> run_name (tr ! m) \<noteq> Some name"
  proof (intro allI impI)
    fix m assume "Suc k \<le> m \<and> m < j"
    then have "k < m \<and> m < j" by simp
    with assms(6) show "pick_keeps s rq name (tr ! m) \<and> run_name (tr ! m) \<noteq> Some name"
      by blast
  qed
  have "replay s rq Map.empty (take j tr) name =
      replay s rq Map.empty (take (Suc k) tr) name"
    by (rule replay_kept [OF assms(1) b c])
  also have "\<dots> = Some (fst (snd (Run p (before (tr ! k)) rq (cs_ref (tr ! k)) pods')))"
    by (rule replay_after_run [OF k assms(4)])
  finally show ?thesis unfolding r .
qed





text \<open>
  C10. The entry that the handler is handed under the name of a profile that was run is
  the result pointer which that run returned, whatever error the run returned with it,
  as long as no later run for the same name has replaced it and no \<^verbatim>\<open>Pick\<close> since, which
  is handed the same map, has written that entry; the first call of the handler after
  the run follows runs only. So a run that returns an error together with a result that
  is not nil leaves an entry that is not nil. This holds for the calls of a \<^verbatim>\<open>Schedule\<close>
  that returns and for the calls made up to any round that the loop gets to.
\<close>

theorem stored_result_is_returned_result:
  assumes "Schedule s ro w rq pods = Some out \<and> tr = trace out \<or>
           reaches_round s ro rq (fst (NewCycleState w)) (initial_state w pods) k' \<and>
           tr = calls (round_state s ro rq (fst (NewCycleState w)) 0 k' (initial_state w pods))"
    and "k < j" and "j < length tr"
    and "call (tr ! k) = RunCall name p pods'"
    and "input_results (tr ! j) = Some r"
    and "\<forall>m. k < m \<and> m < j \<longrightarrow>
           run_name (tr ! m) \<noteq> Some name \<and> pick_keeps s rq name (tr ! m)"
  shows "r name = Some (fst (snd (Run p (before (tr ! k)) rq (cs_ref (tr ! k)) pods')))"
proof -
  have replayed: "inputs_replayed s rq tr"
    by (rule call_record_invariants(3) [OF assms(1)])
  show ?thesis
    by (rule input_after_run [OF replayed assms(2-6)])
qed

theorem stored_result_is_returned_result_witness:
  "snd (snd (Run partial_profile (snd (NewCycleState empty_store)) request_r1 0 [pod_A])) =
     (Some (Error ''profile failed''), [pod_A]) \<and>
   map_option
     (\<lambda>out. (length (trace out), call (trace out ! 1), run_name (trace out ! 2),
             map_option (\<lambda>r. r ''p1'') (input_results (trace out ! 2)),
             map_option (\<lambda>r. r ''p1'') (input_results (trace out ! 3))))
     (Schedule partial_profile_scheduler visit_forward empty_store request_r1 [pod_A]) =
   Some (4, RunCall ''p1'' partial_profile [pod_A], None,
         Some (Some (Some \<lparr>SelectedPod = None, Scores = []\<rparr>)),
         Some (Some (Some \<lparr>SelectedPod = None, Scores = []\<rparr>)))"
proof -
  let ?out = "the (Schedule partial_profile_scheduler visit_forward empty_store request_r1 [pod_A])"
  let ?rs = "[''p1'' \<mapsto> Some \<lparr>SelectedPod = None, Scores = []\<rparr>]"
  have "Schedule partial_profile_scheduler visit_forward empty_store request_r1 [pod_A] =
           Some ?out"
    by (simp add: example_defs)
  then have h: "Schedule partial_profile_scheduler visit_forward empty_store request_r1 [pod_A] =
                  Some ?out \<and> trace ?out = trace ?out \<or>
                reaches_round partial_profile_scheduler visit_forward request_r1
                  (fst (NewCycleState empty_store)) (initial_state empty_store [pod_A]) 0 \<and>
                trace ?out = calls (round_state partial_profile_scheduler visit_forward request_r1
                  (fst (NewCycleState empty_store)) 0 0 (initial_state empty_store [pod_A]))"
    by simp
  have len: "3 < length (trace ?out)"
    by (simp add: example_defs)
  have k: "call (trace ?out ! 1) = RunCall ''p1'' partial_profile [pod_A]"
    by (simp add: example_defs)
  have j: "input_results (trace ?out ! 3) = Some ?rs"
    by (simp add: example_defs)
  have two: "run_name (trace ?out ! 2) \<noteq> Some ''p1'' \<and>
             pick_keeps partial_profile_scheduler request_r1 ''p1'' (trace ?out ! 2)"
    by (simp add: example_defs)
  have between: "\<forall>m. 1 < m \<and> m < 3 \<longrightarrow>
      run_name (trace ?out ! m) \<noteq> Some ''p1'' \<and>
      pick_keeps partial_profile_scheduler request_r1 ''p1'' (trace ?out ! m)"
  proof (intro allI impI)
    fix m :: nat assume "1 < m \<and> m < 3"
    then have "m = 2" by simp
    with two show "run_name (trace ?out ! m) \<noteq> Some ''p1'' \<and>
      pick_keeps partial_profile_scheduler request_r1 ''p1'' (trace ?out ! m)"
      by simp
  qed
  from stored_result_is_returned_result [OF h _ len k j between] show ?thesis
    by (simp add: example_defs)
qed

subsection \<open>One wave\<close>

lemma run_entries_append [simp]: "run_entries (xs @ ys) = run_entries xs @ run_entries ys"
  by (induction xs) (simp_all split: option.splits)

lemma run_profiles_run_entries:
  "run_entries (calls (run_profiles rq cs wave st)) = run_entries (calls st) @ wave"
proof (induction wave arbitrary: st)
  case Nil
  then show ?case by simp
next
  case (Cons e wave)
  then show ?case by (cases e) simp
qed

lemma run_profiles_calls_prefix:
  "\<exists>es. calls (run_profiles rq cs wave st) = calls st @ es"
proof (induction wave arbitrary: st)
  case Nil
  then show ?case by simp
next
  case (Cons a wave)
  obtain name p where a: "a = (name, p)" by (cases a)
  from Cons.IH [of "run_profile rq cs a st"] obtain es where
    "calls (run_profiles rq cs wave (run_profile rq cs a st)) =
       calls (run_profile rq cs a st) @ es" by blast
  with a show ?case by simp
qed

lemma run_profiles_other_name:
  "name \<notin> fst ` set wave \<Longrightarrow>
   profileRunResults (run_profiles rq cs wave st) name = profileRunResults st name"
proof (induction wave arbitrary: st)
  case Nil
  then show ?case by simp
next
  case (Cons e wave)
  then show ?case by (cases e) auto
qed

lemma run_profiles_entry:
  assumes "distinct (map fst wave)" and "(name, p) \<in> set wave"
  shows "\<exists>e \<in> set (drop (length (calls st)) (calls (run_profiles rq cs wave st))). \<exists>pods'.
           call e = RunCall name p pods' \<and> cs_ref e = cs \<and>
           after e = fst (Run p (before e) rq cs pods') \<and>
           profileRunResults (run_profiles rq cs wave st) name =
             Some (fst (snd (Run p (before e) rq cs pods')))"
  using assms
proof (induction wave arbitrary: st)
  case Nil
  then show ?case by simp
next
  case (Cons a wave)
  show ?case
  proof (cases "a = (name, p)")
    case True
    let ?e = "\<lparr>call = RunCall name p (candidatePods st), cs_ref = cs, before = world st,
               after = fst (Run p (world st) rq cs (candidatePods st))\<rparr>"
    let ?st1 = "run_profile rq cs (name, p) st"
    from Cons.prems(1) True have "name \<notin> fst ` set wave" by simp
    then have "profileRunResults (run_profiles rq cs wave ?st1) name =
               profileRunResults ?st1 name"
      by (rule run_profiles_other_name)
    then have res: "profileRunResults (run_profiles rq cs (a # wave) st) name =
               Some (fst (snd (Run p (before ?e) rq cs (candidatePods st))))"
      using True by simp
    from run_profiles_calls_prefix [of rq cs wave ?st1] obtain es where
      "calls (run_profiles rq cs wave ?st1) = calls ?st1 @ es" by blast
    then have "drop (length (calls st)) (calls (run_profiles rq cs (a # wave) st)) = ?e # es"
      using True by simp
    then have mem: "?e \<in> set (drop (length (calls st)) (calls (run_profiles rq cs (a # wave) st)))"
      by simp
    have "call ?e = RunCall name p (candidatePods st) \<and> cs_ref ?e = cs \<and>
          after ?e = fst (Run p (before ?e) rq cs (candidatePods st)) \<and>
          profileRunResults (run_profiles rq cs (a # wave) st) name =
             Some (fst (snd (Run p (before ?e) rq cs (candidatePods st))))"
      using res by simp
    with mem show ?thesis by blast
  next
    case False
    obtain name' p' where a: "a = (name', p')" by (cases a)
    let ?st1 = "run_profile rq cs a st"
    from False Cons.prems have "distinct (map fst wave)" "(name, p) \<in> set wave" by auto
    from Cons.IH [OF this, of ?st1] obtain e pods' where
      e: "e \<in> set (drop (length (calls ?st1)) (calls (run_profiles rq cs wave ?st1)))"
      and p: "call e = RunCall name p pods' \<and> cs_ref e = cs \<and>
           after e = fst (Run p (before e) rq cs pods') \<and>
           profileRunResults (run_profiles rq cs wave ?st1) name =
             Some (fst (snd (Run p (before e) rq cs pods')))"
      by blast
    have "length (calls ?st1) = Suc (length (calls st))"
      using a by simp
    with e have "e \<in> set (drop (Suc (length (calls st))) (calls (run_profiles rq cs wave ?st1)))"
      by simp
    then have "e \<in> set (drop (length (calls st)) (calls (run_profiles rq cs wave ?st1)))"
      by (metis drop_Suc in_set_dropD tl_drop drop_drop plus_1_eq_Suc)
    with p show ?thesis by auto
  qed
qed

lemma range_ok_distinct:
  assumes "range_ok ro" and "distinct (map fst m)"
  shows "distinct (map fst (ro n m))"
proof -
  from assms(1) have "mset (map fst (ro n m)) = mset (map fst m)"
    by (simp add: range_ok_def)
  then show ?thesis using assms(2) by (metis mset_eq_imp_distinct_iff)
qed

lemma range_ok_set: "range_ok ro \<Longrightarrow> set (ro n m) = set m"
  by (metis mset_eq_setD range_ok_def)

lemma range_ok_visit_forward: "range_ok visit_forward"
  by (simp add: range_ok_def visit_forward_def)


lemma round_body_calls_prefix:
  "\<exists>es. calls (round_body s ro rq cs n st) =
          calls st @
          \<lparr>call = PickCall (profileRunResults st), cs_ref = cs, before = world st,
            after = fst (Pick (profileHandler s) (world st) cs rq (profiles s)
                           (profileRunResults st))\<rparr> # es"
proof -
  from run_profiles_calls_prefix
    [of rq cs "ro n (pick_profiles s rq cs st)" "after_pick s rq cs st"]
  show ?thesis by (simp add: round_body_def)
qed

lemma round_state_first_pick:
  "\<exists>es. calls (after_pick s rq cs (round_state s ro rq cs n k st)) =
          calls st @
          \<lparr>call = PickCall (profileRunResults st), cs_ref = cs, before = world st,
            after = fst (Pick (profileHandler s) (world st) cs rq (profiles s)
                           (profileRunResults st))\<rparr> # es"
proof (induction k arbitrary: n st)
  case 0
  then show ?case by simp
next
  case (Suc k)
  let ?rb = "round_body s ro rq cs n st"
  from Suc.IH [of "Suc n" ?rb] obtain es where
    es: "calls (after_pick s rq cs (round_state s ro rq cs (Suc n) k ?rb)) =
          calls ?rb @
          \<lparr>call = PickCall (profileRunResults ?rb), cs_ref = cs, before = world ?rb,
            after = fst (Pick (profileHandler s) (world ?rb) cs rq (profiles s)
                           (profileRunResults ?rb))\<rparr> # es" by blast
  from round_body_calls_prefix [of s ro rq cs n st] obtain es' where
    es': "calls ?rb = calls st @
          \<lparr>call = PickCall (profileRunResults st), cs_ref = cs, before = world st,
            after = fst (Pick (profileHandler s) (world st) cs rq (profiles s)
                           (profileRunResults st))\<rparr> # es'" by blast
  have "calls (after_pick s rq cs (round_state s ro rq cs n (Suc k) st)) =
        calls (after_pick s rq cs (round_state s ro rq cs (Suc n) k ?rb))"
    by simp
  also note es
  finally show ?case
    unfolding es' by (metis append_Cons append_assoc)
qed

lemma rounds_first_pick:
  assumes "rounds s ro rq cs n st = Some y"
  shows "length (calls st) < length (calls y) \<and>
         take (length (calls st)) (calls y) = calls st \<and>
         call (calls y ! length (calls st)) = PickCall (profileRunResults st)"
proof -
  from rounds_Some_D [OF assms] obtain k where
    y: "y = after_pick s rq cs (round_state s ro rq cs n k st)" by blast
  from round_state_first_pick [of s rq cs ro n k st] obtain es where
    "calls y = calls st @
          \<lparr>call = PickCall (profileRunResults st), cs_ref = cs, before = world st,
            after = fst (Pick (profileHandler s) (world st) cs rq (profiles s)
                           (profileRunResults st))\<rparr> # es"
    unfolding y by blast
  then show ?thesis by simp
qed

text \<open>
  C1. A run that returns an error returns a nil result with it: this is the contract of
  the method \<^verbatim>\<open>Run\<close> of package \<^verbatim>\<open>framework\<close>, as the comment on line 93 has it. The
  error is logged and nothing else is done with it: every profile picked for the round
  is run, once, in the order
  of the visit, on the store the call before it left; the entry left under the name of
  each picked profile is the result pointer which its run returned, so it is nil for a
  run that returned an error; the loop goes on with the next round; and the next
  \<^verbatim>\<open>Pick\<close> is handed these entries.
\<close>

theorem failed_run_isolated:
  assumes "range_ok ro"
    and "distinct (map fst (pick_profiles s rq cs st))"
    and "(name, p) \<in> set (pick_profiles s rq cs st)"
    and "nil_on_error p"
  shows "run_entries (calls (round_body s ro rq cs n st)) =
           run_entries (calls st) @ ro n (pick_profiles s rq cs st) \<and>
         set (ro n (pick_profiles s rq cs st)) = set (pick_profiles s rq cs st) \<and>
         (\<forall>entry \<in> set (pick_profiles s rq cs st).
            \<exists>e \<in> set (drop (Suc (length (calls st))) (calls (round_body s ro rq cs n st))).
            \<exists>pods'.
              call e = RunCall (fst entry) (snd entry) pods' \<and> cs_ref e = cs \<and>
              after e = fst (Run (snd entry) (before e) rq cs pods') \<and>
              profileRunResults (round_body s ro rq cs n st) (fst entry) =
                Some (fst (snd (Run (snd entry) (before e) rq cs pods')))) \<and>
         (\<exists>e \<in> set (drop (Suc (length (calls st))) (calls (round_body s ro rq cs n st))).
          \<exists>pods'.
            call e = RunCall name p pods' \<and>
            profileRunResults (round_body s ro rq cs n st) name =
              Some (fst (snd (Run p (before e) rq cs pods'))) \<and>
            (fst (snd (snd (Run p (before e) rq cs pods'))) \<noteq> None \<longrightarrow>
               profileRunResults (round_body s ro rq cs n st) name = Some None)) \<and>
         rounds s ro rq cs n st =
           rounds s ro rq cs (Suc n) (round_body s ro rq cs n st) \<and>
         (\<forall>y. rounds s ro rq cs n st = Some y \<longrightarrow>
            length (calls (round_body s ro rq cs n st)) < length (calls y) \<and>
            take (length (calls (round_body s ro rq cs n st))) (calls y) =
              calls (round_body s ro rq cs n st) \<and>
            call (calls y ! length (calls (round_body s ro rq cs n st))) =
              PickCall (profileRunResults (round_body s ro rq cs n st)))"
proof -
  let ?picked = "pick_profiles s rq cs st"
  let ?st1 = "round_body s ro rq cs n st"
  let ?wave = "drop (Suc (length (calls st))) (calls ?st1)"
  have entries: "run_entries (calls ?st1) = run_entries (calls st) @ ro n ?picked"
    by (simp add: round_body_def run_profiles_run_entries)
  have same: "set (ro n ?picked) = set ?picked"
    by (rule range_ok_set [OF assms(1)])
  have d: "distinct (map fst (ro n ?picked))"
    by (rule range_ok_distinct [OF assms(1,2)])
  have len: "length (calls (after_pick s rq cs st)) = Suc (length (calls st))"
    by simp
  have each: "\<exists>e \<in> set ?wave. \<exists>pods'.
      call e = RunCall name' p' pods' \<and> cs_ref e = cs \<and>
      after e = fst (Run p' (before e) rq cs pods') \<and>
      profileRunResults ?st1 name' = Some (fst (snd (Run p' (before e) rq cs pods')))"
    if "(name', p') \<in> set ?picked" for name' p'
  proof -
    from that same have "(name', p') \<in> set (ro n ?picked)" by simp
    from run_profiles_entry [OF d this, of "after_pick s rq cs st" rq cs]
    show ?thesis
      unfolding round_body_def len .
  qed
  have all: "\<forall>entry \<in> set ?picked. \<exists>e \<in> set ?wave. \<exists>pods'.
      call e = RunCall (fst entry) (snd entry) pods' \<and> cs_ref e = cs \<and>
      after e = fst (Run (snd entry) (before e) rq cs pods') \<and>
      profileRunResults ?st1 (fst entry) =
        Some (fst (snd (Run (snd entry) (before e) rq cs pods')))"
  proof
    fix entry assume "entry \<in> set ?picked"
    then have "(fst entry, snd entry) \<in> set ?picked" by simp
    from each [OF this] show "\<exists>e \<in> set ?wave. \<exists>pods'.
      call e = RunCall (fst entry) (snd entry) pods' \<and> cs_ref e = cs \<and>
      after e = fst (Run (snd entry) (before e) rq cs pods') \<and>
      profileRunResults ?st1 (fst entry) =
        Some (fst (snd (Run (snd entry) (before e) rq cs pods')))" .
  qed
  from each [OF assms(3)] obtain e pods' where
    e: "e \<in> set ?wave" "call e = RunCall name p pods'"
       "profileRunResults ?st1 name = Some (fst (snd (Run p (before e) rq cs pods')))"
    by blast
  have "fst (snd (snd (Run p (before e) rq cs pods'))) \<noteq> None \<longrightarrow>
          profileRunResults ?st1 name = Some None"
    using assms(4) e(3) by (simp add: nil_on_error_def)
  with e have failed: "\<exists>e \<in> set ?wave. \<exists>pods'.
      call e = RunCall name p pods' \<and>
      profileRunResults ?st1 name = Some (fst (snd (Run p (before e) rq cs pods'))) \<and>
      (fst (snd (snd (Run p (before e) rq cs pods'))) \<noteq> None \<longrightarrow>
         profileRunResults ?st1 name = Some None)"
    by blast
  from assms(3) have "?picked \<noteq> []" by auto
  then have next_round: "rounds s ro rq cs n st = rounds s ro rq cs (Suc n) ?st1"
    by (simp add: rounds.simps [of s ro rq cs n st])
  have next_pick: "\<forall>y. rounds s ro rq cs n st = Some y \<longrightarrow>
      length (calls ?st1) < length (calls y) \<and>
      take (length (calls ?st1)) (calls y) = calls ?st1 \<and>
      call (calls y ! length (calls ?st1)) = PickCall (profileRunResults ?st1)"
    unfolding next_round using rounds_first_pick by blast
  show ?thesis
    by (intro conjI entries same all failed next_round next_pick)
qed

lemma nil_on_error_failing_profile: "nil_on_error failing_profile"
  by (simp add: nil_on_error_def failing_profile_def)

theorem failed_run_isolated_witness:
  "range_ok visit_forward \<and> nil_on_error failing_profile \<and>
   pick_profiles isolation_scheduler request_r1 0 (initial_state empty_store [pod_A]) =
     [(''p0'', failing_profile), (''p1'', first_pod_profile)] \<and>
   Run failing_profile (snd (NewCycleState empty_store)) request_r1 0 [pod_A] =
     (snd (NewCycleState empty_store), None, Some (Error ''profile failed''), [pod_A]) \<and>
   run_entries (calls (round_body isolation_scheduler visit_forward request_r1 0 0
     (initial_state empty_store [pod_A]))) =
     [(''p0'', failing_profile), (''p1'', first_pod_profile)] \<and>
   profileRunResults (round_body isolation_scheduler visit_forward request_r1 0 0
     (initial_state empty_store [pod_A])) =
     [''p0'' \<mapsto> None, ''p1'' \<mapsto> Some \<lparr>SelectedPod = Some pod_A, Scores = [(''A'', 1)]\<rparr>] \<and>
   map_option (\<lambda>st. map call (calls st))
     (rounds isolation_scheduler visit_forward request_r1 0 0
       (initial_state empty_store [pod_A])) =
     Some [PickCall Map.empty, RunCall ''p0'' failing_profile [pod_A],
           RunCall ''p1'' first_pod_profile [pod_A],
           PickCall [''p0'' \<mapsto> None,
             ''p1'' \<mapsto> Some \<lparr>SelectedPod = Some pod_A, Scores = [(''A'', 1)]\<rparr>]]"
proof -
  let ?st0 = "initial_state empty_store [pod_A]"
  have picked: "pick_profiles isolation_scheduler request_r1 0 ?st0 =
      [(''p0'', failing_profile), (''p1'', first_pod_profile)]"
    by (simp add: example_defs)
  have d: "distinct (map fst (pick_profiles isolation_scheduler request_r1 0 ?st0))"
    unfolding picked by simp
  have m: "(''p0'', failing_profile) \<in> set (pick_profiles isolation_scheduler request_r1 0 ?st0)"
    unfolding picked by simp
  have rest: "Run failing_profile (snd (NewCycleState empty_store)) request_r1 0 [pod_A] =
     (snd (NewCycleState empty_store), None, Some (Error ''profile failed''), [pod_A]) \<and>
   run_entries (calls (round_body isolation_scheduler visit_forward request_r1 0 0 ?st0)) =
     [(''p0'', failing_profile), (''p1'', first_pod_profile)] \<and>
   profileRunResults (round_body isolation_scheduler visit_forward request_r1 0 0 ?st0) =
     [''p0'' \<mapsto> None, ''p1'' \<mapsto> Some \<lparr>SelectedPod = Some pod_A, Scores = [(''A'', 1)]\<rparr>] \<and>
   map_option (\<lambda>st. map call (calls st))
     (rounds isolation_scheduler visit_forward request_r1 0 0 ?st0) =
     Some [PickCall Map.empty, RunCall ''p0'' failing_profile [pod_A],
           RunCall ''p1'' first_pod_profile [pod_A],
           PickCall [''p0'' \<mapsto> None,
             ''p1'' \<mapsto> Some \<lparr>SelectedPod = Some pod_A, Scores = [(''A'', 1)]\<rparr>]]"
    using failed_run_isolated [OF range_ok_visit_forward d m nil_on_error_failing_profile, of 0]
    by (simp add: example_defs)
  from range_ok_visit_forward nil_on_error_failing_profile picked rest show ?thesis
    by blast
qed

subsection \<open>Result and error of the whole call\<close>

text \<open>
  C4. \<^verbatim>\<open>Schedule\<close> adds no policy to what \<^verbatim>\<open>ProcessResults\<close> returns: a call that returns
  returns either no result with the error that no profile was run, when the results
  map is empty at the end of the loop, or else the very result and error that
  \<^verbatim>\<open>ProcessResults\<close> returns on the store and the results map the loop ended with. So when
  the \<^verbatim>\<open>ProcessResults\<close> of the handler always returns a result or an error and never
  both, so does \<^verbatim>\<open>Schedule\<close>.
\<close>

theorem Schedule_result_xor_error:
  assumes "Schedule s ro w rq pods = Some out"
  shows "\<exists>st. rounds s ro rq (fst (NewCycleState w)) 0 (initial_state w pods) = Some st \<and>
           (profileRunResults st = Map.empty \<and> result out = None \<and>
              err out = Some (NoProfilesRun rq) \<and> final_world out = world st \<or>
            profileRunResults st \<noteq> Map.empty \<and>
              (final_world out, result out, err out) =
                ProcessResults (profileHandler s) (world st) (fst (NewCycleState w)) rq
                  (profileRunResults st)) \<and>
           ((\<forall>w' cs rs.
               (fst (snd (ProcessResults (profileHandler s) w' cs rq rs)) = None) \<longleftrightarrow>
               (snd (snd (ProcessResults (profileHandler s) w' cs rq rs)) \<noteq> None)) \<longrightarrow>
            ((result out = None) \<longleftrightarrow> (err out \<noteq> None)))"
proof -
  let ?cs = "fst (NewCycleState w)"
  from Schedule_SomeD [OF assms] obtain st where
    st: "rounds s ro rq ?cs 0 (initial_state w pods) = Some st"
    and out: "out = finish s rq ?cs st"
    by blast
  have verbatim: "profileRunResults st = Map.empty \<and> result out = None \<and>
              err out = Some (NoProfilesRun rq) \<and> final_world out = world st \<or>
            profileRunResults st \<noteq> Map.empty \<and>
              (final_world out, result out, err out) =
                ProcessResults (profileHandler s) (world st) ?cs rq (profileRunResults st)"
    unfolding out by (simp add: finish_result finish_err finish_final_world)
  have xor: "(\<forall>w' cs rs.
               (fst (snd (ProcessResults (profileHandler s) w' cs rq rs)) = None) \<longleftrightarrow>
               (snd (snd (ProcessResults (profileHandler s) w' cs rq rs)) \<noteq> None)) \<longrightarrow>
            ((result out = None) \<longleftrightarrow> (err out \<noteq> None))"
  proof
    assume h: "\<forall>w' cs rs.
               (fst (snd (ProcessResults (profileHandler s) w' cs rq rs)) = None) \<longleftrightarrow>
               (snd (snd (ProcessResults (profileHandler s) w' cs rq rs)) \<noteq> None)"
    show "(result out = None) \<longleftrightarrow> (err out \<noteq> None)"
    proof (cases "profileRunResults st = Map.empty")
      case True
      then show ?thesis unfolding out by (simp add: finish_result finish_err)
    next
      case False
      then show ?thesis
        unfolding out using h by (simp add: finish_result finish_err)
    qed
  qed
  show ?thesis
    by (intro exI [of _ st] conjI st verbatim xor)
qed

theorem Schedule_result_xor_error_witness:
  "(\<forall>w' cs rs. (fst (snd (ProcessResults (profileHandler basic_scheduler) w' cs request_r1 rs)) = None) \<longleftrightarrow>
                (snd (snd (ProcessResults (profileHandler basic_scheduler) w' cs request_r1 rs)) \<noteq> None)) \<and>
   map_option (\<lambda>out. (result out, err out))
     (Schedule basic_scheduler visit_forward empty_store request_r1 [pod_A]) =
     Some (Some \<lparr>TargetPod = Some pod_A,
                  ProfileResults =
                    [''p1'' \<mapsto> Some \<lparr>SelectedPod = Some pod_A, Scores = [(''A'', 1)]\<rparr>]\<rparr>,
           None) \<and>
   map_option (\<lambda>out. (result out, err out))
     (Schedule idle_scheduler visit_forward empty_store request_r1 [pod_A]) =
     Some (None, Some (Error ''failed to run any scheduler profile for request r1'')) \<and>
   map_option (\<lambda>out. (result out, err out))
     (Schedule partial_handler_scheduler visit_forward empty_store request_r1 [pod_A]) =
     Some (Some \<lparr>TargetPod = None,
                  ProfileResults =
                    [''p1'' \<mapsto> Some \<lparr>SelectedPod = Some pod_A, Scores = [(''A'', 1)]\<rparr>]\<rparr>,
           Some (Error ''no eligible pod''))"
proof -
  let ?out = "the (Schedule basic_scheduler visit_forward empty_store request_r1 [pod_A])"
  let ?out' = "the (Schedule idle_scheduler visit_forward empty_store request_r1 [pod_A])"
  let ?out'' = "the (Schedule partial_handler_scheduler visit_forward empty_store request_r1 [pod_A])"
  have h: "Schedule basic_scheduler visit_forward empty_store request_r1 [pod_A] = Some ?out"
    by (simp add: example_defs)
  have h': "Schedule idle_scheduler visit_forward empty_store request_r1 [pod_A] = Some ?out'"
    by (simp add: example_defs)
  have h'': "Schedule partial_handler_scheduler visit_forward empty_store request_r1 [pod_A] =
      Some ?out''"
    by (simp add: example_defs)
  have x: "\<forall>w' cs rs.
      (fst (snd (ProcessResults (profileHandler basic_scheduler) w' cs request_r1 rs)) = None) \<longleftrightarrow>
      (snd (snd (ProcessResults (profileHandler basic_scheduler) w' cs request_r1 rs)) \<noteq> None)"
    by (simp add: basic_scheduler_def single_round_handler_def primary_results_def
        split: option.splits)
  have a: "map_option (\<lambda>out. (result out, err out))
     (Schedule basic_scheduler visit_forward empty_store request_r1 [pod_A]) =
     Some (Some \<lparr>TargetPod = Some pod_A,
                  ProfileResults =
                    [''p1'' \<mapsto> Some \<lparr>SelectedPod = Some pod_A, Scores = [(''A'', 1)]\<rparr>]\<rparr>,
           None)"
    using Schedule_result_xor_error [OF h] by (simp add: example_defs)
  have b: "map_option (\<lambda>out. (result out, err out))
     (Schedule idle_scheduler visit_forward empty_store request_r1 [pod_A]) =
     Some (None, Some (Error ''failed to run any scheduler profile for request r1''))"
    using Schedule_result_xor_error [OF h'] by (simp add: example_defs)
  have c: "map_option (\<lambda>out. (result out, err out))
     (Schedule partial_handler_scheduler visit_forward empty_store request_r1 [pod_A]) =
     Some (Some \<lparr>TargetPod = None,
                  ProfileResults =
                    [''p1'' \<mapsto> Some \<lparr>SelectedPod = Some pod_A, Scores = [(''A'', 1)]\<rparr>]\<rparr>,
           Some (Error ''no eligible pod''))"
    using Schedule_result_xor_error [OF h''] by (simp add: example_defs)
  from x a b c show ?thesis by blast
qed

text \<open>
  With a handler whose \<^verbatim>\<open>ProcessResults\<close> returns a result together with an error,
  \<^verbatim>\<open>Schedule\<close> returns both.
\<close>

theorem Schedule_result_with_error_counterexample:
  "map_option (\<lambda>out. (result out, err out))
     (Schedule partial_handler_scheduler visit_forward empty_store request_r1 [pod_A]) =
   Some (Some \<lparr>TargetPod = None,
                ProfileResults =
                  [''p1'' \<mapsto> Some \<lparr>SelectedPod = Some pod_A, Scores = [(''A'', 1)]\<rparr>]\<rparr>,
         Some (Error ''no eligible pod''))"
proof -
  have "Schedule partial_handler_scheduler visit_forward empty_store request_r1 [pod_A] \<noteq> None"
    by (simp add: example_defs)
  then show ?thesis
    by (simp add: example_defs)
qed

subsection \<open>No candidate pods\<close>

lemma no_pods_inv_after_pick: "no_pods_inv st \<Longrightarrow> no_pods_inv (after_pick s rq cs st)"
  by (simp add: no_pods_inv_def)

lemma no_pods_inv_run_profile: "no_pods_inv st \<Longrightarrow> no_pods_inv (run_profile rq cs e st)"
  by (cases e) (simp add: no_pods_inv_def)

lemma round_state_no_pods_inv:
  "no_pods_inv st \<Longrightarrow> no_pods_inv (round_state s ro rq cs n k st)"
  by (rule round_state_invariant [where I = no_pods_inv and s = s and rq = rq and cs = cs])
    (simp_all add: no_pods_inv_after_pick no_pods_inv_run_profile)

lemma no_pods_record:
  assumes "Schedule s ro w rq [] = Some out \<and> tr = trace out \<or>
           reaches_round s ro rq (fst (NewCycleState w)) (initial_state w []) k \<and>
           tr = calls (round_state s ro rq (fst (NewCycleState w)) 0 k (initial_state w []))"
  shows "\<forall>e \<in> set tr. \<forall>name p pods'. call e = RunCall name p pods' \<longrightarrow> pods' = []"
proof -
  let ?cs = "fst (NewCycleState w)"
  let ?st0 = "initial_state w []"
  have inv: "no_pods_inv (round_state s ro rq ?cs 0 j ?st0)" for j
    by (rule round_state_no_pods_inv) (simp add: no_pods_inv_def)
  from assms show ?thesis
  proof
    assume a: "Schedule s ro w rq [] = Some out \<and> tr = trace out"
    with Schedule_SomeD [of s ro w rq "[]" out] obtain st where
      st: "rounds s ro rq ?cs 0 ?st0 = Some st" "out = finish s rq ?cs st" by blast
    from rounds_Some_D [OF st(1)] obtain j where
      "st = after_pick s rq ?cs (round_state s ro rq ?cs 0 j ?st0)" by blast
    with inv [of j] have "no_pods_inv st" by (simp add: no_pods_inv_after_pick)
    with a st(2) show ?thesis
      by (simp add: finish_trace no_pods_inv_def)
  next
    assume "reaches_round s ro rq ?cs ?st0 k \<and> tr = calls (round_state s ro rq ?cs 0 k ?st0)"
    with inv [of k] show ?thesis by (simp add: no_pods_inv_def)
  qed
qed

lemma Schedule_returns_iff:
  "Schedule s ro w rq pods \<noteq> None \<longleftrightarrow>
     (\<exists>k. pick_profiles s rq (fst (NewCycleState w))
            (round_state s ro rq (fst (NewCycleState w)) 0 k (initial_state w pods)) = [])"
proof
  assume "Schedule s ro w rq pods \<noteq> None"
  then obtain out where "Schedule s ro w rq pods = Some out" by blast
  from Schedule_SomeD [OF this] obtain st where
    "rounds s ro rq (fst (NewCycleState w)) 0 (initial_state w pods) = Some st" by blast
  from rounds_Some_D [OF this] show
    "\<exists>k. pick_profiles s rq (fst (NewCycleState w))
            (round_state s ro rq (fst (NewCycleState w)) 0 k (initial_state w pods)) = []"
    by (auto simp: ends_at_def)
next
  assume "\<exists>k. pick_profiles s rq (fst (NewCycleState w))
            (round_state s ro rq (fst (NewCycleState w)) 0 k (initial_state w pods)) = []"
  then obtain k where "ends_at s ro rq (fst (NewCycleState w)) 0 (initial_state w pods) k"
    using first_empty_pick by blast
  from Schedule_Some [OF rounds_ends_at [OF this]]
  show "Schedule s ro w rq pods \<noteq> None" by simp
qed

lemma round_body_run_entries:
  "run_entries (calls (round_body s ro rq cs n st)) =
     run_entries (calls st) @ ro n (pick_profiles s rq cs st)"
  by (simp add: round_body_def run_profiles_run_entries)

lemma round_state_run_entries:
  "run_entries (calls (round_state s ro rq cs n k st)) =
     run_entries (calls st) @
     concat (map (\<lambda>j. ro (n + j) (pick_profiles s rq cs (round_state s ro rq cs n j st)))
               [0..<k])"
proof (induction k arbitrary: n st)
  case 0
  then show ?case by simp
next
  case (Suc k)
  let ?rb = "round_body s ro rq cs n st"
  let ?f = "\<lambda>j. ro (n + j) (pick_profiles s rq cs (round_state s ro rq cs n j st))"
  have "run_entries (calls (round_state s ro rq cs n (Suc k) st)) =
        run_entries (calls ?rb) @
        concat (map (\<lambda>j. ro (Suc n + j)
                  (pick_profiles s rq cs (round_state s ro rq cs (Suc n) j ?rb))) [0..<k])"
    using Suc.IH [of "Suc n" ?rb] by simp
  also have "\<dots> = run_entries (calls st) @ ?f 0 @ concat (map (\<lambda>j. ?f (Suc j)) [0..<k])"
    by (simp add: round_body_run_entries)
  also have "?f 0 @ concat (map (\<lambda>j. ?f (Suc j)) [0..<k]) = concat (map ?f [0..<Suc k])"
  proof -
    have "[0..<Suc k] = 0 # map Suc [0..<k]"
      by (simp add: upt_conv_Cons map_Suc_upt del: upt_Suc)
    then have "map ?f [0..<Suc k] = ?f 0 # map (\<lambda>j. ?f (Suc j)) [0..<k]"
      by (simp add: comp_def del: upt_Suc)
    then show ?thesis by (simp del: upt_Suc)
  qed
  finally show ?case .
qed

text \<open>
  C9. A call of \<^verbatim>\<open>Schedule\<close> with no candidate pods goes through the same loop. It
  returns if and only if the \<^verbatim>\<open>Pick\<close> of some round returns an empty map. The runs up to
  any round that the loop gets to are those of the profiles picked in the rounds before,
  in the order of the visit. Every run, in a
  call that returns or up to any round that the loop gets to, is a call of \<^verbatim>\<open>Run\<close> on
  the empty list: the store after the run is the store this call returns, and the entry
  the handler is handed under the name of the profile, as long as no later run and no
  \<^verbatim>\<open>Pick\<close> has written it, is the result this call returns. What a call that returns
  returns is settled by its last plugin call: the result and the error of
  \<^verbatim>\<open>ProcessResults\<close>, or, when the last \<^verbatim>\<open>Pick\<close> left the results map empty, the error that
  no profile was run.
\<close>

theorem Schedule_no_candidate_pods:
  assumes "Schedule s ro w rq [] = Some out \<and> tr = trace out \<or>
           reaches_round s ro rq (fst (NewCycleState w)) (initial_state w []) k \<and>
           tr = calls (round_state s ro rq (fst (NewCycleState w)) 0 k (initial_state w []))"
  shows "(Schedule s ro w rq [] \<noteq> None \<longleftrightarrow>
            (\<exists>k. pick_profiles s rq (fst (NewCycleState w))
                   (round_state s ro rq (fst (NewCycleState w)) 0 k (initial_state w [])) = [])) \<and>
         (\<forall>k. reaches_round s ro rq (fst (NewCycleState w)) (initial_state w []) k \<longrightarrow>
            run_entries (calls (round_state s ro rq (fst (NewCycleState w)) 0 k
                                  (initial_state w []))) =
              concat (map (\<lambda>j. ro j (pick_profiles s rq (fst (NewCycleState w))
                                         (round_state s ro rq (fst (NewCycleState w)) 0 j
                                            (initial_state w []))))
                        [0..<k])) \<and>
         (\<forall>e \<in> set tr. \<forall>name p pods'. call e = RunCall name p pods' \<longrightarrow>
            pods' = [] \<and> after e = fst (Run p (before e) rq (cs_ref e) [])) \<and>
         (\<forall>i j name p pods' r.
            i < j \<and> j < length tr \<and> call (tr ! i) = RunCall name p pods' \<and>
            input_results (tr ! j) = Some r \<and>
            (\<forall>m. i < m \<and> m < j \<longrightarrow>
               run_name (tr ! m) \<noteq> Some name \<and> pick_keeps s rq name (tr ! m)) \<longrightarrow>
            r name = Some (fst (snd (Run p (before (tr ! i)) rq (cs_ref (tr ! i)) [])))) \<and>
         (Schedule s ro w rq [] = Some out \<and> tr = trace out \<longrightarrow>
            settled_by_last_call s rq out)"
proof -
  note pods = no_pods_record [OF assms]
  note faithful = call_record_invariants(2) [OF assms]
  note rep = call_record_invariants(3) [OF assms]
  have runs: "\<forall>e \<in> set tr. \<forall>name p pods'. call e = RunCall name p pods' \<longrightarrow>
            pods' = [] \<and> after e = fst (Run p (before e) rq (cs_ref e) [])"
  proof (intro ballI allI impI)
    fix e name p pods'
    assume e: "e \<in> set tr" and c: "call e = RunCall name p pods'"
    from pods e c have p: "pods' = []" by blast
    from faithful e have "after e = returned_store s rq e" by blast
    with c p show "pods' = [] \<and> after e = fst (Run p (before e) rq (cs_ref e) [])"
      by simp
  qed
  have stored: "\<forall>i j name p pods' r.
            i < j \<and> j < length tr \<and> call (tr ! i) = RunCall name p pods' \<and>
            input_results (tr ! j) = Some r \<and>
            (\<forall>m. i < m \<and> m < j \<longrightarrow>
               run_name (tr ! m) \<noteq> Some name \<and> pick_keeps s rq name (tr ! m)) \<longrightarrow>
            r name = Some (fst (snd (Run p (before (tr ! i)) rq (cs_ref (tr ! i)) [])))"
  proof (intro allI impI)
    fix i j name p pods' r
    assume h: "i < j \<and> j < length tr \<and> call (tr ! i) = RunCall name p pods' \<and>
            input_results (tr ! j) = Some r \<and>
            (\<forall>m. i < m \<and> m < j \<longrightarrow>
               run_name (tr ! m) \<noteq> Some name \<and> pick_keeps s rq name (tr ! m))"
    then have ij: "i < j" and j: "j < length tr" and c: "call (tr ! i) = RunCall name p pods'"
      and r: "input_results (tr ! j) = Some r"
      and b: "\<forall>m. i < m \<and> m < j \<longrightarrow>
               run_name (tr ! m) \<noteq> Some name \<and> pick_keeps s rq name (tr ! m)"
      by blast+
    from ij j have "tr ! i \<in> set tr" by simp
    with pods c have "pods' = []" by blast
    with input_after_run [OF rep ij j c r b]
    show "r name = Some (fst (snd (Run p (before (tr ! i)) rq (cs_ref (tr ! i)) [])))"
      by simp
  qed
  have settled: "Schedule s ro w rq [] = Some out \<and> tr = trace out \<longrightarrow>
      settled_by_last_call s rq out"
    using Schedule_settled by blast
  have waves: "\<forall>k. reaches_round s ro rq (fst (NewCycleState w)) (initial_state w []) k \<longrightarrow>
            run_entries (calls (round_state s ro rq (fst (NewCycleState w)) 0 k
                                  (initial_state w []))) =
              concat (map (\<lambda>j. ro j (pick_profiles s rq (fst (NewCycleState w))
                                         (round_state s ro rq (fst (NewCycleState w)) 0 j
                                            (initial_state w []))))
                        [0..<k])"
    by (simp add: round_state_run_entries)
  show ?thesis
    by (intro conjI Schedule_returns_iff waves runs stored settled)
qed

theorem Schedule_no_candidate_pods_witness:
  "map_option (\<lambda>out. (result out, err out, map call (trace out),
                      cs_read (final_world out) 0 ''pods''))
     (Schedule counting_scheduler visit_forward empty_store request_r1 []) =
   Some (Some \<lparr>TargetPod = None,
                ProfileResults =
                  [''p1'' \<mapsto> Some \<lparr>SelectedPod = None, Scores = [(''candidates'', 0)]\<rparr>]\<rparr>,
         None,
         [PickCall Map.empty, RunCall ''p1'' counting_profile [],
          PickCall [''p1'' \<mapsto> Some \<lparr>SelectedPod = None, Scores = [(''candidates'', 0)]\<rparr>],
          ProcessResultsCall
            [''p1'' \<mapsto> Some \<lparr>SelectedPod = None, Scores = [(''candidates'', 0)]\<rparr>]],
         Some ''none'') \<and>
   Run counting_profile (snd (NewCycleState empty_store)) request_r1 0 [] =
     (cs_write (snd (NewCycleState empty_store)) 0 ''pods'' ''none'',
      Some \<lparr>SelectedPod = None, Scores = [(''candidates'', 0)]\<rparr>, None, [])"
proof -
  let ?out = "the (Schedule counting_scheduler visit_forward empty_store request_r1 [])"
  have "Schedule counting_scheduler visit_forward empty_store request_r1 [] = Some ?out"
    by (simp add: example_defs)
  then have h: "Schedule counting_scheduler visit_forward empty_store request_r1 [] =
                  Some ?out \<and> trace ?out = trace ?out \<or>
                reaches_round counting_scheduler visit_forward request_r1
                  (fst (NewCycleState empty_store)) (initial_state empty_store []) 0 \<and>
                trace ?out = calls (round_state counting_scheduler visit_forward request_r1
                  (fst (NewCycleState empty_store)) 0 0 (initial_state empty_store []))"
    by simp
  from Schedule_no_candidate_pods [OF h]
  show ?thesis
    by (simp add: example_defs)
qed

subsection \<open>The order of the visit\<close>

lemma same_data_refl [simp]: "same_data st st"
  by (simp add: same_data_def)





lemma run_profiles_append [simp]:
  "run_profiles rq cs (xs @ ys) st = run_profiles rq cs ys (run_profiles rq cs xs st)"
  by (induction xs arbitrary: st) simp_all













text \<open>
  The hypothesis is needed: two profiles of one wave that use the cycle state to find out
  which of them runs first are not independent, and they give one target pod when the
  map is visited in one order and none when it is visited in the other.
\<close>

lemma dependent_profiles_order_matters:
  "map_option (\<lambda>out. map_option TargetPod (result out))
     (Schedule claiming_scheduler visit_forward empty_store request_r1 [pod_A]) =
     Some (Some (Some pod_A)) \<and>
   map_option (\<lambda>out. map_option TargetPod (result out))
     (Schedule claiming_scheduler visit_backward empty_store request_r1 [pod_A]) =
     Some (Some None)"
proof -
  have f: "map_option (\<lambda>out. map_option TargetPod (result out))
     (Schedule claiming_scheduler visit_forward empty_store request_r1 [pod_A]) =
     Some (Some (Some pod_A))"
    by (simp add: example_defs)
  have b: "map_option (\<lambda>out. map_option TargetPod (result out))
     (Schedule claiming_scheduler visit_backward empty_store request_r1 [pod_A]) =
     Some (Some None)"
    by (simp add: example_defs)
  from f b show ?thesis by blast
qed

subsection \<open>The shared slice of candidate pods\<close>

text \<open>A run is handed the candidate pods as the runs before it left them: the profile
  \<open>p1\<close> below, run after a profile that overwrote the slice, is handed and selects the
  pod written there; run before it, it is handed and selects the pod of the caller.\<close>

lemma run_sees_overwritten_pods:
  "map_option (\<lambda>out. (map_option TargetPod (result out), call (trace out ! 1), call (trace out ! 2)))
     (Schedule overwriting_scheduler visit_forward empty_store request_r1 [pod_A]) =
     Some (Some (Some pod_B), RunCall ''p0'' overwriting_profile [pod_A],
           RunCall ''p1'' first_pod_profile [pod_B]) \<and>
   map_option (\<lambda>out. (map_option TargetPod (result out), call (trace out ! 1), call (trace out ! 2)))
     (Schedule overwriting_scheduler visit_backward empty_store request_r1 [pod_A]) =
     Some (Some (Some pod_A), RunCall ''p1'' first_pod_profile [pod_A],
           RunCall ''p0'' overwriting_profile [pod_A])"
proof -
  have f: "map_option (\<lambda>out. (map_option TargetPod (result out), call (trace out ! 1), call (trace out ! 2)))
     (Schedule overwriting_scheduler visit_forward empty_store request_r1 [pod_A]) =
     Some (Some (Some pod_B), RunCall ''p0'' overwriting_profile [pod_A],
           RunCall ''p1'' first_pod_profile [pod_B])"
    by (simp add: example_defs)
  have b: "map_option (\<lambda>out. (map_option TargetPod (result out), call (trace out ! 1), call (trace out ! 2)))
     (Schedule overwriting_scheduler visit_backward empty_store request_r1 [pod_A]) =
     Some (Some (Some pod_A), RunCall ''p1'' first_pod_profile [pod_A],
           RunCall ''p0'' overwriting_profile [pod_A])"
    by (simp add: example_defs)
  from f b show ?thesis by blast
qed

end
